theory Spec2Isabelle
  imports Complex_Main "HOL-Library.AList" "HOL-Library.Sublist"
begin

section \<open>The multi-warehouse inventory synchronisation service\<close>

text \<open>
  A shallow embedding of the class \<open>InventorySyncService\<close> (the module exports one
  instance of it). The service holds a JavaScript \<open>Map\<close> of warehouses, each with a
  \<open>Map\<close> of per-product inventory records, an array of queued updates and an array of
  conflicts.

  \<^item> A \<open>Map\<close> iterates in insertion order and \<open>set\<close> on a present key replaces the
    value in place: it is an association list written with \<open>AList.update\<close> and read
    with \<open>map_of\<close>.
  \<^item> Numbers are modelled as \<open>int\<close> (quantities, versions, millisecond timestamps).
  \<^item> The operation of an update is the string the caller passed; the \<open>switch\<close> of
    \<open>applyUpdate\<close> has no default case.
  \<^item> A thrown \<open>Error\<close> is the \<open>Inl\<close> of a sum; the two messages of the source are
    the two constructors of \<open>error\<close>.
  \<^item> \<open>Date.now()\<close>, \<open>Math.random()\<close> and the identifiers built from them are inputs:
    the record \<open>readings\<close> holds what they return during one call of
    \<open>updateInventory\<close>.
  \<^item> Every method is \<open>async\<close> but awaits only promises of its own methods; one call is
    modelled run to completion. \<open>syncToWarehouse\<close> touches only its own target
    warehouse and appends to the conflict list during its synchronous prefix, so
    the targets are processed one after the other in iteration order.
  \<^item> \<open>console.log\<close> and \<open>emit\<close> (no listener is attached inside the module) do not
    change the service and are left out.
  \<^item> A conflict holds the current record as it is read at detection. The source
    stores a reference to that object, and \<open>applyUpdate\<close> adds to \<open>reserved\<close> of the
    object it replaces, so a later \<open>reserve\<close> or \<open>release\<close> shows through the
    reference; no statement below reads \<open>c_currentState\<close>.
\<close>

subsection \<open>Data\<close>

record inventoryRecord =
  quantity :: int
  reserved :: int
  version :: int
  lastUpdated :: int

record warehouse =
  w_id :: string
  w_location :: string
  inventory :: "(string \<times> inventoryRecord) list"
  lastSync :: "int option"
  status :: string
  lag :: int

record inventoryUpdate =
  u_id :: string
  u_warehouseId :: string
  u_productId :: string
  u_quantity :: int
  u_operation :: string
  u_timestamp :: int
  u_version :: int

record conflict =
  c_id :: string
  c_warehouseId :: string
  c_productId :: string
  c_incomingUpdate :: inventoryUpdate
  c_currentState :: inventoryRecord
  c_timestamp :: int
  c_resolved :: bool
  c_resolution :: "string option"

record service =
  warehouses :: "(string \<times> warehouse) list"
  syncQueue :: "inventoryUpdate list"
  conflicts :: "conflict list"
  syncInProgress :: bool

datatype error = WarehouseNotFound string | InsufficientInventory int

text \<open>
  What the environment returns during one call of \<open>updateInventory\<close>:
  \<open>generateUpdateId()\<close>, the \<open>Date.now()\<close> of the update's timestamp and, for the
  target warehouse with a given id, \<open>generateConflictId()\<close>, the \<open>Date.now()\<close> of the
  conflict and the \<open>Date.now()\<close> stored in \<open>lastSync\<close>.
\<close>

record readings =
  updateId :: string
  now :: int
  conflictId :: "string \<Rightarrow> string"
  conflictNow :: "string \<Rightarrow> int"
  syncNow :: "string \<Rightarrow> int"

definition constructor :: service where
  "constructor = \<lparr>warehouses = [], syncQueue = [], conflicts = [], syncInProgress = False\<rparr>"

subsection \<open>Registration\<close>

definition registerWarehouse :: "service \<Rightarrow> string \<Rightarrow> string \<Rightarrow> service" where
  "registerWarehouse s warehouseId location =
     s\<lparr>warehouses := AList.update warehouseId
          \<lparr>w_id = warehouseId, w_location = location, inventory = [],
           lastSync = None, status = ''active'', lag = 0\<rparr> (warehouses s)\<rparr>"

subsection \<open>Applying an update\<close>

definition getVersion :: "service \<Rightarrow> string \<Rightarrow> string \<Rightarrow> int" where
  "getVersion s warehouseId productId =
     (case map_of (warehouses s) warehouseId of
        None \<Rightarrow> 0
      | Some wh \<Rightarrow> (case map_of (inventory wh) productId of
                     None \<Rightarrow> 0
                   | Some inventory' \<Rightarrow> version inventory'))"

text \<open>
  \<open>store\<close> is the \<open>warehouse.inventory.set\<close> that ends \<open>applyUpdate\<close>; \<open>current\<close> is
  the stored record or the default \<open>{quantity: 0, reserved: 0, version: 0}\<close>, of
  which only \<open>quantity\<close> and \<open>reserved\<close> are read.
\<close>

definition store :: "warehouse \<Rightarrow> inventoryUpdate \<Rightarrow> int \<Rightarrow> int \<Rightarrow> warehouse" where
  "store wh u newQuantity newReserved =
     wh\<lparr>inventory := AList.update (u_productId u)
          \<lparr>quantity = newQuantity, reserved = newReserved,
           version = u_version u, lastUpdated = u_timestamp u\<rparr> (inventory wh)\<rparr>"

definition applyUpdate :: "warehouse \<Rightarrow> inventoryUpdate \<Rightarrow> error + warehouse" where
  "applyUpdate wh u =
     (let current = map_of (inventory wh) (u_productId u);
          curQuantity = (case current of None \<Rightarrow> 0 | Some r \<Rightarrow> quantity r);
          curReserved = (case current of None \<Rightarrow> 0 | Some r \<Rightarrow> reserved r)
      in if u_operation u = ''set'' then
           Inr (store wh u (u_quantity u) curReserved)
         else if u_operation u = ''add'' then
           Inr (store wh u (curQuantity + u_quantity u) curReserved)
         else if u_operation u = ''subtract'' then
           Inr (store wh u (max 0 (curQuantity - u_quantity u)) curReserved)
         else if u_operation u = ''reserve'' then
           (if curQuantity \<ge> u_quantity u
            then Inr (store wh u curQuantity (curReserved + u_quantity u))
            else Inl (InsufficientInventory (u_quantity u)))
         else if u_operation u = ''release'' then
           Inr (store wh u curQuantity (max 0 (curReserved - u_quantity u)))
         else Inr (store wh u curQuantity curReserved))"

subsection \<open>Propagation and conflicts\<close>

text \<open>
  \<open>handleConflict\<close> pushes the conflict with \<open>resolved: false\<close> before it decides.
  When the incoming update is newer it applies it and only then sets \<open>resolved\<close> and
  \<open>resolution\<close>: if \<open>applyUpdate\<close> throws, the pushed conflict stays as it was and the
  error goes to the caller.
\<close>

definition handleConflict ::
  "readings \<Rightarrow> warehouse \<Rightarrow> inventoryUpdate \<Rightarrow> inventoryRecord \<Rightarrow> conflict list
     \<Rightarrow> (error + warehouse) \<times> conflict list" where
  "handleConflict env wh u current cs =
     (let c = \<lparr>c_id = conflictId env (w_id wh), c_warehouseId = w_id wh,
               c_productId = u_productId u, c_incomingUpdate = u,
               c_currentState = current, c_timestamp = conflictNow env (w_id wh),
               c_resolved = False, c_resolution = None\<rparr>
      in if u_timestamp u > lastUpdated current then
           (case applyUpdate wh u of
              Inl e \<Rightarrow> (Inl e, cs @ [c])
            | Inr wh' \<Rightarrow>
                (Inr wh', cs @ [c\<lparr>c_resolved := True,
                                  c_resolution := Some ''accepted_incoming''\<rparr>]))
         else (Inr wh, cs @ [c\<lparr>c_resolved := True,
                                 c_resolution := Some ''kept_current''\<rparr>]))"

text \<open>The \<open>catch\<close> of \<open>syncToWarehouse\<close>: any error increments the target's lag.\<close>

definition syncToWarehouse ::
  "readings \<Rightarrow> warehouse \<Rightarrow> inventoryUpdate \<Rightarrow> conflict list \<Rightarrow> warehouse \<times> conflict list" where
  "syncToWarehouse env wh u cs =
     (let current = map_of (inventory wh) (u_productId u);
          conflicting = (case current of None \<Rightarrow> False
                         | Some cur \<Rightarrow> version cur \<ge> u_version u)
      in if conflicting then
           (case handleConflict env wh u (the current) cs of
              (Inl e, cs') \<Rightarrow> (wh\<lparr>lag := lag wh + 1\<rparr>, cs')
            | (Inr wh', cs') \<Rightarrow> (wh', cs'))
         else
           (case applyUpdate wh u of
              Inl e \<Rightarrow> (wh\<lparr>lag := lag wh + 1\<rparr>, cs)
            | Inr wh' \<Rightarrow> (wh'\<lparr>lastSync := Some (syncNow env (w_id wh))\<rparr>, cs)))"

fun propagateLoop ::
  "readings \<Rightarrow> inventoryUpdate \<Rightarrow> (string \<times> warehouse) list \<Rightarrow> conflict list
     \<Rightarrow> (string \<times> warehouse) list \<times> conflict list" where
  "propagateLoop env u [] cs = ([], cs)"
| "propagateLoop env u ((warehouseId, wh) # rest) cs =
     (if warehouseId \<noteq> u_warehouseId u \<and> status wh = ''active'' then
        (case syncToWarehouse env wh u cs of
           (wh', cs') \<Rightarrow>
             (case propagateLoop env u rest cs' of
                (rest', cs'') \<Rightarrow> ((warehouseId, wh') # rest', cs'')))
      else
        (case propagateLoop env u rest cs of
           (rest', cs'') \<Rightarrow> ((warehouseId, wh) # rest', cs'')))"

definition propagateUpdate :: "readings \<Rightarrow> service \<Rightarrow> inventoryUpdate \<Rightarrow> service" where
  "propagateUpdate env s u =
     (case propagateLoop env u (warehouses s) (conflicts s) of
        (ws, cs) \<Rightarrow> s\<lparr>warehouses := ws, conflicts := cs\<rparr>)"

subsection \<open>The public mutations\<close>

text \<open>The operation is \<open>None\<close> when the caller leaves it out: the default is \<open>'set'\<close>.\<close>

definition updateInventory ::
  "readings \<Rightarrow> service \<Rightarrow> string \<Rightarrow> string \<Rightarrow> int \<Rightarrow> string option
     \<Rightarrow> service \<times> (error + inventoryUpdate)" where
  "updateInventory env s warehouseId productId qty operation =
     (case map_of (warehouses s) warehouseId of
        None \<Rightarrow> (s, Inl (WarehouseNotFound warehouseId))
      | Some wh \<Rightarrow>
          (let u = \<lparr>u_id = updateId env, u_warehouseId = warehouseId,
                    u_productId = productId, u_quantity = qty,
                    u_operation = (case operation of None \<Rightarrow> ''set'' | Some opn \<Rightarrow> opn),
                    u_timestamp = now env,
                    u_version = getVersion s warehouseId productId + 1\<rparr>;
               s1 = s\<lparr>syncQueue := syncQueue s @ [u]\<rparr>
           in case applyUpdate wh u of
                Inl e \<Rightarrow> (s1, Inl e)
              | Inr wh' \<Rightarrow>
                  (propagateUpdate env
                     (s1\<lparr>warehouses := AList.update warehouseId wh' (warehouses s1)\<rparr>) u,
                   Inr u)))"

definition reserveInventory ::
  "readings \<Rightarrow> service \<Rightarrow> string \<Rightarrow> string \<Rightarrow> int \<Rightarrow> service \<times> (error + inventoryUpdate)" where
  "reserveInventory env s warehouseId productId qty =
     updateInventory env s warehouseId productId qty (Some ''reserve'')"

definition releaseInventory ::
  "readings \<Rightarrow> service \<Rightarrow> string \<Rightarrow> string \<Rightarrow> int \<Rightarrow> service \<times> (error + inventoryUpdate)" where
  "releaseInventory env s warehouseId productId qty =
     updateInventory env s warehouseId productId qty (Some ''release'')"

text \<open>Two calls, each with its own readings; an error of the first ends the method.\<close>

definition commitReservation ::
  "readings \<Rightarrow> readings \<Rightarrow> service \<Rightarrow> string \<Rightarrow> string \<Rightarrow> int \<Rightarrow> service \<times> (error + unit)" where
  "commitReservation env1 env2 s warehouseId productId qty =
     (case releaseInventory env1 s warehouseId productId qty of
        (s1, Inl e) \<Rightarrow> (s1, Inl e)
      | (s1, Inr _) \<Rightarrow>
          (case updateInventory env2 s1 warehouseId productId qty (Some ''subtract'') of
             (s2, Inl e) \<Rightarrow> (s2, Inl e)
           | (s2, Inr _) \<Rightarrow> (s2, Inr ())))"

text \<open>One item of \<open>inventoryData\<close> with the readings of its \<open>updateInventory\<close> call.\<close>

fun syncLoop ::
  "service \<Rightarrow> string \<Rightarrow> (string \<times> int \<times> readings) list \<Rightarrow> inventoryUpdate list
     \<Rightarrow> service \<times> (error + inventoryUpdate list)" where
  "syncLoop s warehouseId [] updates = (s, Inr updates)"
| "syncLoop s warehouseId ((productId, qty, env) # items) updates =
     (case updateInventory env s warehouseId productId qty (Some ''set'') of
        (s', Inl e) \<Rightarrow> (s', Inl e)
      | (s', Inr u) \<Rightarrow> syncLoop s' warehouseId items (updates @ [u]))"

definition syncFromExternalSystem ::
  "service \<Rightarrow> string \<Rightarrow> (string \<times> int \<times> readings) list
     \<Rightarrow> service \<times> (error + inventoryUpdate list)" where
  "syncFromExternalSystem s warehouseId inventoryData =
     (case map_of (warehouses s) warehouseId of
        None \<Rightarrow> (s, Inl (WarehouseNotFound warehouseId))
      | Some _ \<Rightarrow> syncLoop s warehouseId inventoryData [])"

subsection \<open>The reads\<close>

record breakdown =
  b_warehouseId :: string
  b_location :: string
  b_quantity :: int
  b_reserved :: int
  b_available :: int

record globalInventory =
  g_productId :: string
  g_totalQuantity :: int
  g_totalReserved :: int
  g_totalAvailable :: int
  g_warehouses :: "breakdown list"
  g_lastUpdated :: int

text \<open>The loop of \<open>getGlobalInventory\<close> with its three accumulators.\<close>

fun globalLoop ::
  "string \<Rightarrow> (string \<times> warehouse) list \<Rightarrow> int \<Rightarrow> int \<Rightarrow> breakdown list
     \<Rightarrow> int \<times> int \<times> breakdown list" where
  "globalLoop productId [] totalQuantity totalReserved ws = (totalQuantity, totalReserved, ws)"
| "globalLoop productId ((warehouseId, wh) # rest) totalQuantity totalReserved ws =
     (case map_of (inventory wh) productId of
        None \<Rightarrow> globalLoop productId rest totalQuantity totalReserved ws
      | Some r \<Rightarrow>
          globalLoop productId rest (totalQuantity + quantity r) (totalReserved + reserved r)
            (ws @ [\<lparr>b_warehouseId = warehouseId, b_location = w_location wh,
                     b_quantity = quantity r, b_reserved = reserved r,
                     b_available = quantity r - reserved r\<rparr>]))"

text \<open>\<open>clock\<close> is the \<open>Date.now()\<close> read for the field \<open>lastUpdated\<close> of the result.\<close>

definition getGlobalInventory :: "service \<Rightarrow> string \<Rightarrow> int \<Rightarrow> globalInventory" where
  "getGlobalInventory s productId clock =
     (case globalLoop productId (warehouses s) 0 0 [] of
        (totalQuantity, totalReserved, ws) \<Rightarrow>
          \<lparr>g_productId = productId, g_totalQuantity = totalQuantity,
           g_totalReserved = totalReserved,
           g_totalAvailable = totalQuantity - totalReserved,
           g_warehouses = ws, g_lastUpdated = clock\<rparr>)"

record candidate =
  cand_warehouseId :: string
  cand_location :: string
  cand_available :: int
  cand_distance :: int
  cand_estimatedShipping :: string

text \<open>
  \<open>calculateDistance\<close> ignores both locations: it is
  \<open>Math.floor(Math.random() * 1000) + 50\<close>. The reading of \<open>Math.random()\<close> is the
  third argument, a real number in place of the double.
\<close>

definition calculateDistance :: "string \<Rightarrow> string \<Rightarrow> real \<Rightarrow> int" where
  "calculateDistance location1 location2 random = \<lfloor>random * 1000\<rfloor> + 50"

definition estimateShipping :: "int \<Rightarrow> string" where
  "estimateShipping distance =
     (if distance < 100 then ''1-2 days''
      else if distance < 500 then ''2-3 days''
      else if distance < 1000 then ''3-5 days''
      else ''5-7 days'')"

text \<open>
  The loop of \<open>findOptimalWarehouse\<close>; \<open>random k\<close> is the \<open>k\<close>-th reading of
  \<open>Math.random()\<close> during the call, one for each candidate.
\<close>

fun candidatesLoop ::
  "(nat \<Rightarrow> real) \<Rightarrow> string \<Rightarrow> int \<Rightarrow> string \<Rightarrow> (string \<times> warehouse) list \<Rightarrow> nat
     \<Rightarrow> candidate list \<Rightarrow> candidate list" where
  "candidatesLoop random productId qty shippingAddress [] k candidates = candidates"
| "candidatesLoop random productId qty shippingAddress ((warehouseId, wh) # rest) k candidates =
     (case map_of (inventory wh) productId of
        None \<Rightarrow> candidatesLoop random productId qty shippingAddress rest k candidates
      | Some r \<Rightarrow>
          if quantity r - reserved r \<ge> qty then
            (let distance = calculateDistance (w_location wh) shippingAddress (random k)
             in candidatesLoop random productId qty shippingAddress rest (Suc k)
                  (candidates @ [\<lparr>cand_warehouseId = warehouseId,
                                   cand_location = w_location wh,
                                   cand_available = quantity r - reserved r,
                                   cand_distance = distance,
                                   cand_estimatedShipping = estimateShipping distance\<rparr>]))
          else candidatesLoop random productId qty shippingAddress rest k candidates)"

text \<open>
  \<open>Array.prototype.sort\<close> is stable and the comparator orders by \<open>distance\<close> alone;
  \<open>sort_key\<close> is a stable sort on that key. \<open>candidates[0] || null\<close> is the head.
\<close>

definition findOptimalWarehouse ::
  "(nat \<Rightarrow> real) \<Rightarrow> service \<Rightarrow> string \<Rightarrow> int \<Rightarrow> string \<Rightarrow> candidate option" where
  "findOptimalWarehouse random s productId qty shippingAddress =
     (case sort_key cand_distance
             (candidatesLoop random productId qty shippingAddress (warehouses s) 0 []) of
        [] \<Rightarrow> None
      | c # _ \<Rightarrow> Some c)"

record warehouseStatus =
  ws_warehouseId :: string
  ws_location :: string
  ws_status :: string
  ws_itemCount :: nat
  ws_lastSync :: "int option"
  ws_lag :: int
  ws_healthy :: bool

record syncStatus =
  ss_warehouses :: "warehouseStatus list"
  ss_totalWarehouses :: nat
  ss_activeWarehouses :: nat
  ss_queueLength :: nat
  ss_conflicts :: nat
  ss_unresolvedConflicts :: nat
  ss_avgLag :: "rat option"
  ss_healthy :: bool

fun statusLoop ::
  "(string \<times> warehouse) list \<Rightarrow> warehouseStatus list \<Rightarrow> int
     \<Rightarrow> warehouseStatus list \<times> int" where
  "statusLoop [] warehouseStatus totalLag = (warehouseStatus, totalLag)"
| "statusLoop ((warehouseId, wh) # rest) warehouseStatus totalLag =
     statusLoop rest
       (warehouseStatus @ [\<lparr>ws_warehouseId = warehouseId, ws_location = w_location wh,
                            ws_status = status wh, ws_itemCount = length (inventory wh),
                            ws_lastSync = lastSync wh, ws_lag = lag wh,
                            ws_healthy = (lag wh < 10)\<rparr>])
       (totalLag + lag wh)"

text \<open>
  \<open>totalLag / this.warehouses.size\<close> is \<open>NaN\<close> when no warehouse is registered:
  \<open>avgLag\<close> is then \<open>None\<close>, and \<open>NaN < 5\<close> is false.
\<close>

definition getSyncStatus :: "service \<Rightarrow> syncStatus" where
  "getSyncStatus s =
     (case statusLoop (warehouses s) [] 0 of
        (warehouseStatus, totalLag) \<Rightarrow>
          (let avgLag = (if length (warehouses s) = 0 then None
                         else Some (of_int totalLag / of_nat (length (warehouses s))))
           in \<lparr>ss_warehouses = warehouseStatus,
               ss_totalWarehouses = length (warehouses s),
               ss_activeWarehouses =
                 length (filter (\<lambda>w. ws_status w = ''active'') warehouseStatus),
               ss_queueLength = length (syncQueue s),
               ss_conflicts = length (conflicts s),
               ss_unresolvedConflicts =
                 length (filter (\<lambda>c. \<not> c_resolved c) (conflicts s)),
               ss_avgLag = avgLag,
               ss_healthy = (case avgLag of None \<Rightarrow> False | Some a \<Rightarrow> a < 5)\<rparr>))"

text \<open>The record a warehouse holds for a product, as the two \<open>get\<close> calls read it.\<close>

definition getRecord :: "service \<Rightarrow> string \<Rightarrow> string \<Rightarrow> inventoryRecord option" where
  "getRecord s warehouseId productId =
     (case map_of (warehouses s) warehouseId of
        None \<Rightarrow> None
      | Some wh \<Rightarrow> map_of (inventory wh) productId)"

subsection \<open>Calls and fixtures\<close>

text \<open>
  The mutating methods of the exported instance, as one datatype of calls, and the
  service a call leaves behind (whether it returns or throws).
\<close>

datatype call =
    RegisterWarehouse string string
  | UpdateInventory readings string string int "string option"
  | ReserveInventory readings string string int
  | ReleaseInventory readings string string int
  | CommitReservation readings readings string string int
  | SyncFromExternalSystem string "(string \<times> int \<times> readings) list"

fun perform :: "service \<Rightarrow> call \<Rightarrow> service" where
  "perform s (RegisterWarehouse w l) = registerWarehouse s w l"
| "perform s (UpdateInventory env w p q opn) = fst (updateInventory env s w p q opn)"
| "perform s (ReserveInventory env w p q) = fst (reserveInventory env s w p q)"
| "perform s (ReleaseInventory env w p q) = fst (releaseInventory env s w p q)"
| "perform s (CommitReservation env1 env2 w p q) = fst (commitReservation env1 env2 s w p q)"
| "perform s (SyncFromExternalSystem w items) = fst (syncFromExternalSystem s w items)"

text \<open>The quantity values a call passes to \<open>updateInventory\<close>.\<close>

fun callValues :: "call \<Rightarrow> int list" where
  "callValues (RegisterWarehouse w l) = []"
| "callValues (UpdateInventory env w p q opn) = [q]"
| "callValues (ReserveInventory env w p q) = [q]"
| "callValues (ReleaseInventory env w p q) = [q]"
| "callValues (CommitReservation env1 env2 w p q) = [q]"
| "callValues (SyncFromExternalSystem w items) = map (\<lambda>(p, q, env). q) items"

definition nonnegRecords :: "warehouse \<Rightarrow> bool" where
  "nonnegRecords wh = list_all (\<lambda>(p, r). 0 \<le> quantity r \<and> 0 \<le> reserved r) (inventory wh)"

definition nonnegStock :: "service \<Rightarrow> bool" where
  "nonnegStock s = list_all (\<lambda>(w, wh). nonnegRecords wh) (warehouses s)"

text \<open>
  Readings for concrete runs: the clock reads \<open>t\<close> throughout one call (a call takes
  less than the millisecond \<open>Date.now()\<close> resolves).
\<close>

definition readingsAt :: "int \<Rightarrow> readings" where
  "readingsAt t = \<lparr>updateId = ''upd'', now = t, conflictId = (\<lambda>w. ''conf''),
                   conflictNow = (\<lambda>w. t), syncNow = (\<lambda>w. t)\<rparr>"

definition twoWarehouses :: service where
  "twoWarehouses = registerWarehouse (registerWarehouse constructor ''A'' ''X'') ''B'' ''Y''"

text \<open>Warehouse \<open>A\<close> alone, holding 10 of \<open>sku1\<close>, all 10 reserved.\<close>

definition fullyReserved :: service where
  "fullyReserved =
     fst (reserveInventory (readingsAt 2)
            (fst (updateInventory (readingsAt 1) (registerWarehouse constructor ''A'' ''X'')
                    ''A'' ''sku1'' 10 (Some ''set'')))
            ''A'' ''sku1'' 10)"

text \<open>
  Warehouse \<open>B\<close> sets \<open>sku1\<close> to 3 twice (version 2, last at time 2); then \<open>A\<close> is
  registered and sets \<open>sku1\<close> to 10 within the same millisecond 2, which \<open>B\<close> answers
  with a conflict that keeps its own record.
\<close>

definition staleTarget :: service where
  "staleTarget =
     fst (updateInventory (readingsAt 2)
            (registerWarehouse
               (fst (updateInventory (readingsAt 2)
                       (fst (updateInventory (readingsAt 1)
                               (registerWarehouse constructor ''B'' ''Y'')
                               ''B'' ''sku1'' 3 (Some ''set'')))
                       ''B'' ''sku1'' 3 (Some ''set'')))
               ''A'' ''X'')
            ''A'' ''sku1'' 10 (Some ''set''))"

text \<open>The update object that \<open>updateInventory\<close> builds for a registered warehouse.\<close>

definition newUpdate ::
  "readings \<Rightarrow> service \<Rightarrow> string \<Rightarrow> string \<Rightarrow> int \<Rightarrow> string option \<Rightarrow> inventoryUpdate" where
  "newUpdate env s warehouseId productId qty operation =
     \<lparr>u_id = updateId env, u_warehouseId = warehouseId,
      u_productId = productId, u_quantity = qty,
      u_operation = (case operation of None \<Rightarrow> ''set'' | Some opn \<Rightarrow> opn),
      u_timestamp = now env,
      u_version = getVersion s warehouseId productId + 1\<rparr>"

text \<open>The version a warehouse holds for a product: the inner read of \<open>getVersion\<close>.\<close>

definition versionAt :: "warehouse \<Rightarrow> string \<Rightarrow> int" where
  "versionAt wh productId =
     (case map_of (inventory wh) productId of None \<Rightarrow> 0 | Some r \<Rightarrow> version r)"

text \<open>
  Warehouse \<open>A\<close> sets \<open>sku1\<close> at times 1 and 2 (version 2); then \<open>B\<close> is registered.
\<close>

definition laterRegistered :: service where
  "laterRegistered =
     registerWarehouse
       (fst (updateInventory (readingsAt 2)
               (fst (updateInventory (readingsAt 1) (registerWarehouse constructor ''A'' ''X'')
                       ''A'' ''sku1'' 1 (Some ''set'')))
               ''A'' ''sku1'' 1 (Some ''set'')))
       ''B'' ''Y''"

text \<open>The test of \<open>findOptimalWarehouse\<close> on one warehouse: a record with enough stock free.\<close>

definition qualifies :: "warehouse \<Rightarrow> string \<Rightarrow> int \<Rightarrow> bool" where
  "qualifies wh productId qty =
     (case map_of (inventory wh) productId of
        None \<Rightarrow> False
      | Some r \<Rightarrow> quantity r - reserved r \<ge> qty)"

text \<open>
  \<open>B\<close> is registered before \<open>A\<close> and sets \<open>sku1\<close> to 5, which propagation copies to
  \<open>A\<close>; two readings of \<open>Math.random()\<close> that give the same distance 550.
\<close>

definition tiedWarehouses :: service where
  "tiedWarehouses =
     fst (updateInventory (readingsAt 1)
            (registerWarehouse (registerWarehouse constructor ''B'' ''Y'') ''A'' ''X'')
            ''B'' ''sku1'' 5 (Some ''set''))"

definition tiedRandom :: "nat \<Rightarrow> real" where
  "tiedRandom k = (if k = 0 then 1 / 2 else 2001 / 4000)"

definition versionsNonneg :: "service \<Rightarrow> bool" where
  "versionsNonneg s =
     list_all (\<lambda>(w, wh). list_all (\<lambda>(p, r). 0 \<le> version r) (inventory wh)) (warehouses s)"

text \<open>
  \<open>A\<close> and \<open>B\<close> after \<open>A\<close> sets \<open>sku1\<close> to 50 at time 1 and reserves 20 at time 2:
  both hold 50 with 20 reserved, at version 2.
\<close>

definition stockedWarehouses :: service where
  "stockedWarehouses =
     fst (reserveInventory (readingsAt 2)
            (fst (updateInventory (readingsAt 1) twoWarehouses ''A'' ''sku1'' 50 (Some ''set'')))
            ''A'' ''sku1'' 20)"

section \<open>Properties\<close>

subsection \<open>Helpers\<close>

lemmas run_defs =
  constructor_def registerWarehouse_def getVersion_def store_def applyUpdate_def
  handleConflict_def syncToWarehouse_def propagateUpdate_def updateInventory_def
  reserveInventory_def releaseInventory_def commitReservation_def
  syncFromExternalSystem_def getGlobalInventory_def getRecord_def readingsAt_def
  twoWarehouses_def

lemma set_update_cases:
  "x \<in> set (AList.update k v al) \<Longrightarrow> x = (k, v) \<or> x \<in> set al"
  by (induction al) (auto split: if_splits)

lemma nonnegRecords_store:
  assumes "nonnegRecords wh" "0 \<le> q" "0 \<le> r"
  shows "nonnegRecords (store wh u q r)"
  using assms by (auto simp: nonnegRecords_def store_def list_all_iff dest!: set_update_cases)

lemma current_nonneg:
  assumes "nonnegRecords wh"
  shows "0 \<le> (case map_of (inventory wh) p of None \<Rightarrow> 0 | Some r \<Rightarrow> quantity r)"
    and "0 \<le> (case map_of (inventory wh) p of None \<Rightarrow> 0 | Some r \<Rightarrow> reserved r)"
  using assms by (auto simp: nonnegRecords_def list_all_iff split: option.splits dest!: map_of_SomeD)

lemma applyUpdate_nonneg:
  assumes "nonnegRecords wh" "0 \<le> u_quantity u" "applyUpdate wh u = Inr wh'"
  shows "nonnegRecords wh'"
proof -
  note c = current_nonneg [OF assms(1), of "u_productId u"]
  from assms(3) show ?thesis
    using c assms(1,2)
    by (auto simp: applyUpdate_def Let_def split: if_splits intro!: nonnegRecords_store)
qed

lemma nonnegRecords_lag: "nonnegRecords (wh\<lparr>lag := n\<rparr>) = nonnegRecords wh"
  by (simp add: nonnegRecords_def)

lemma nonnegRecords_lastSync: "nonnegRecords (wh\<lparr>lastSync := n\<rparr>) = nonnegRecords wh"
  by (simp add: nonnegRecords_def)

lemma syncToWarehouse_nonneg:
  assumes "nonnegRecords wh" "0 \<le> u_quantity u"
  shows "nonnegRecords (fst (syncToWarehouse env wh u cs))"
  using assms
  by (auto simp: syncToWarehouse_def handleConflict_def Let_def nonnegRecords_lag
        nonnegRecords_lastSync
      split: option.splits sum.splits if_splits prod.splits dest: applyUpdate_nonneg)

lemma propagateLoop_nonneg:
  assumes "list_all (\<lambda>(w, wh). nonnegRecords wh) ws" "0 \<le> u_quantity u"
  shows "list_all (\<lambda>(w, wh). nonnegRecords wh) (fst (propagateLoop env u ws cs))"
  using assms
proof (induction ws arbitrary: cs)
  case Nil
  then show ?case by simp
next
  case (Cons a ws)
  obtain w wh where a: "a = (w, wh)" by (cases a)
  from Cons.prems have wh: "nonnegRecords wh" and rest: "list_all (\<lambda>(w, wh). nonnegRecords wh) ws"
    by (auto simp: a)
  note ih = Cons.IH [OF rest Cons.prems(2)]
  show ?case
    using wh ih syncToWarehouse_nonneg [OF wh Cons.prems(2), of env cs]
    by (auto simp: a split: prod.splits) (metis fst_conv)+
qed

lemma propagateUpdate_fields:
  "warehouses (propagateUpdate env s u) = fst (propagateLoop env u (warehouses s) (conflicts s))"
  "conflicts (propagateUpdate env s u) = snd (propagateLoop env u (warehouses s) (conflicts s))"
  "syncQueue (propagateUpdate env s u) = syncQueue s"
  "syncInProgress (propagateUpdate env s u) = syncInProgress s"
  by (simp_all add: propagateUpdate_def split: prod.splits)

lemma updateInventory_nonneg:
  assumes "nonnegStock s" "0 \<le> q"
  shows "nonnegStock (fst (updateInventory env s w p q opn))"
proof (cases "map_of (warehouses s) w")
  case None
  then show ?thesis using assms by (simp add: updateInventory_def)
next
  case (Some wh)
  define u where "u = \<lparr>u_id = updateId env, u_warehouseId = w,
                    u_productId = p, u_quantity = q,
                    u_operation = (case opn of None \<Rightarrow> ''set'' | Some opn \<Rightarrow> opn),
                    u_timestamp = now env,
                    u_version = getVersion s w p + 1\<rparr>"
  have uq: "0 \<le> u_quantity u" using assms(2) by (simp add: u_def)
  have wh: "nonnegRecords wh"
    using assms(1) Some by (auto simp: nonnegStock_def list_all_iff dest!: map_of_SomeD)
  show ?thesis
  proof (cases "applyUpdate wh u")
    case (Inl e)
    then show ?thesis using assms Some
      by (simp add: updateInventory_def u_def [symmetric] Let_def nonnegStock_def)
  next
    case (Inr wh')
    have wh': "nonnegRecords wh'" by (rule applyUpdate_nonneg [OF wh uq Inr])
    have "list_all (\<lambda>(w, wh). nonnegRecords wh) (AList.update w wh' (warehouses s))"
      using assms(1) wh' by (auto simp: nonnegStock_def list_all_iff dest!: set_update_cases)
    from propagateLoop_nonneg [OF this uq, of env "conflicts s"]
    show ?thesis using Some Inr
      by (simp add: updateInventory_def u_def [symmetric] Let_def nonnegStock_def
            propagateUpdate_fields)
  qed
qed

lemma syncLoop_nonneg:
  assumes "nonnegStock s" "\<forall>v\<in>set (map (\<lambda>(p, q, env). q) items). 0 \<le> v"
  shows "nonnegStock (fst (syncLoop s w items us))"
  using assms
proof (induction items arbitrary: s us)
  case Nil
  then show ?case by simp
next
  case (Cons a items)
  obtain p q env where a: "a = (p, q, env)" by (cases a)
  have q: "0 \<le> q" using Cons.prems(2) by (simp add: a)
  note step = updateInventory_nonneg [OF Cons.prems(1) q, of env w p "Some ''set''"]
  show ?case
  proof (cases "updateInventory env s w p q (Some ''set'')")
    case (Pair s' res)
    with step have s': "nonnegStock s'" by simp
    show ?thesis
    proof (cases res)
      case (Inl e)
      then show ?thesis using Pair s' by (simp add: a)
    next
      case (Inr u)
      then show ?thesis using Pair Cons.IH [OF s', of "us @ [u]"] Cons.prems(2) by (simp add: a)
    qed
  qed
qed

lemma registerWarehouse_nonneg:
  assumes "nonnegStock s"
  shows "nonnegStock (registerWarehouse s w l)"
  using assms
  by (auto simp: nonnegStock_def registerWarehouse_def list_all_iff nonnegRecords_def
      dest!: set_update_cases)

lemma commitReservation_nonneg:
  assumes "nonnegStock s" "0 \<le> q"
  shows "nonnegStock (fst (commitReservation env1 env2 s w p q))"
proof -
  obtain s1 r1 where 1: "updateInventory env1 s w p q (Some ''release'') = (s1, r1)"
    by (cases "updateInventory env1 s w p q (Some ''release'')")
  obtain s2 r2 where 2: "updateInventory env2 s1 w p q (Some ''subtract'') = (s2, r2)"
    by (cases "updateInventory env2 s1 w p q (Some ''subtract'')")
  have s1: "nonnegStock s1"
    using updateInventory_nonneg [OF assms, of env1 w p "Some ''release''"] 1 by simp
  have s2: "nonnegStock s2"
    using updateInventory_nonneg [OF s1 assms(2), of env2 w p "Some ''subtract''"] 2 by simp
  show ?thesis using 1 2 s1 s2
    by (simp add: commitReservation_def releaseInventory_def split: sum.splits)
qed

text \<open>
  Claim C1, as amended. If no record of any warehouse has a negative \<open>quantity\<close> or a
  negative \<open>reserved\<close>, then none has after any call whose quantity values are not
  negative: registration, \<open>updateInventory\<close> with any operation string (propagation
  and conflict resolution included), \<open>reserveInventory\<close>, \<open>releaseInventory\<close>,
  \<open>commitReservation\<close> and \<open>syncFromExternalSystem\<close>, whether the call returns or
  throws. The bound \<open>reserved \<le> quantity\<close> is not part of what is kept.
\<close>

theorem nonneg_preserved:
  assumes "nonnegStock s" "\<forall>v\<in>set (callValues c). 0 \<le> v"
  shows "nonnegStock (perform s c)"
proof (cases c)
  case (RegisterWarehouse w l)
  then show ?thesis using assms by (simp add: registerWarehouse_nonneg)
next
  case (UpdateInventory env w p q opn)
  then show ?thesis using assms by (simp add: updateInventory_nonneg)
next
  case (ReserveInventory env w p q)
  then show ?thesis using assms by (simp add: updateInventory_nonneg reserveInventory_def)
next
  case (ReleaseInventory env w p q)
  then show ?thesis using assms by (simp add: updateInventory_nonneg releaseInventory_def)
next
  case (CommitReservation env1 env2 w p q)
  then show ?thesis using assms by (simp add: commitReservation_nonneg)
next
  case (SyncFromExternalSystem w items)
  then show ?thesis using assms syncLoop_nonneg [of s items w "[]"]
    by (simp add: syncFromExternalSystem_def split: option.splits)
qed

subsection \<open>Stock bounds\<close>

text \<open>
  Claim C1 fails as stated. After \<open>set 10\<close>, \<open>reserve 5\<close>, \<open>set 2\<close> at warehouse \<open>A\<close> the
  record holds \<open>reserved = 5\<close> over \<open>quantity = 2\<close>; and \<open>set\<close> stores a negative value
  as it is, which leaves \<open>quantity\<close> below both \<open>0\<close> and \<open>reserved\<close>.
\<close>

theorem reserved_le_quantity_counterexample:
  "getRecord (perform (perform (perform (registerWarehouse constructor ''A'' ''X'')
        (UpdateInventory (readingsAt 1) ''A'' ''sku1'' 10 (Some ''set'')))
        (ReserveInventory (readingsAt 2) ''A'' ''sku1'' 5))
        (UpdateInventory (readingsAt 3) ''A'' ''sku1'' 2 (Some ''set''))) ''A'' ''sku1''
     = Some \<lparr>quantity = 2, reserved = 5, version = 3, lastUpdated = 3\<rparr>
   \<and> getRecord (perform (registerWarehouse constructor ''A'' ''X'')
        (UpdateInventory (readingsAt 1) ''A'' ''sku1'' (- 5) (Some ''set''))) ''A'' ''sku1''
     = Some \<lparr>quantity = - 5, reserved = 0, version = 1, lastUpdated = 1\<rparr>"
  by (simp add: run_defs Let_def)

text \<open>The preservation theorem at a \<open>commitReservation\<close> on two fresh warehouses.\<close>

theorem nonneg_preserved_witness:
  "nonnegStock twoWarehouses
   \<and> callValues (CommitReservation (readingsAt 1) (readingsAt 2) ''A'' ''sku1'' 3) = [3]
   \<and> nonnegStock (perform twoWarehouses
        (CommitReservation (readingsAt 1) (readingsAt 2) ''A'' ''sku1'' 3))"
proof -
  have h1: "nonnegStock twoWarehouses"
    by (simp add: nonnegStock_def nonnegRecords_def run_defs)
  have h2: "\<forall>v\<in>set (callValues
              (CommitReservation (readingsAt 1) (readingsAt 2) ''A'' ''sku1'' 3)). 0 \<le> v"
    by simp
  from nonneg_preserved [OF h1 h2] h1 show ?thesis by simp
qed

subsection \<open>Reserving\<close>

text \<open>
  Claim C2, evaluated where it fails. Warehouse \<open>A\<close> holds 10 of \<open>sku1\<close> with all 10
  reserved, so \<open>quantity - reserved = 0 < 5\<close>; \<open>reserveInventory\<close> of 5 returns the
  update and leaves \<open>reserved = 15\<close>: the guard of \<open>applyUpdate\<close> compares the
  requested value with \<open>quantity\<close>, not with \<open>quantity - reserved\<close>.
\<close>

theorem reserve_beyond_available:
  "getRecord fullyReserved ''A'' ''sku1''
     = Some \<lparr>quantity = 10, reserved = 10, version = 2, lastUpdated = 2\<rparr>
   \<and> snd (reserveInventory (readingsAt 3) fullyReserved ''A'' ''sku1'' 5)
     = Inr \<lparr>u_id = ''upd'', u_warehouseId = ''A'', u_productId = ''sku1'', u_quantity = 5,
            u_operation = ''reserve'', u_timestamp = 3, u_version = 3\<rparr>
   \<and> getRecord (fst (reserveInventory (readingsAt 3) fullyReserved ''A'' ''sku1'' 5))
        ''A'' ''sku1''
     = Some \<lparr>quantity = 10, reserved = 15, version = 3, lastUpdated = 3\<rparr>"
  by (simp add: fullyReserved_def run_defs Let_def)

subsection \<open>Conflicts\<close>

text \<open>
  Claim C4, evaluated where it fails. In \<open>staleTarget\<close> warehouse \<open>B\<close> holds 3 of
  \<open>sku1\<close> at version 2, last updated at time 2, and \<open>A\<close> holds 10 at version 1. A
  \<open>reserveInventory\<close> of 5 at \<open>A\<close> at time 3 succeeds there and reaches \<open>B\<close> with
  version 2 and a newer timestamp: a conflict that accepts the incoming update.
  \<open>applyUpdate\<close> then throws at \<open>B\<close> (3 is less than 5), and the conflict pushed
  before stays with \<open>resolved = false\<close> and no resolution; \<open>B\<close> keeps its record and
  its lag goes up.
\<close>

theorem conflict_left_unresolved:
  "getRecord staleTarget ''A'' ''sku1''
     = Some \<lparr>quantity = 10, reserved = 0, version = 1, lastUpdated = 2\<rparr>
   \<and> getRecord staleTarget ''B'' ''sku1''
     = Some \<lparr>quantity = 3, reserved = 0, version = 2, lastUpdated = 2\<rparr>
   \<and> snd (reserveInventory (readingsAt 3) staleTarget ''A'' ''sku1'' 5)
     = Inr \<lparr>u_id = ''upd'', u_warehouseId = ''A'', u_productId = ''sku1'', u_quantity = 5,
            u_operation = ''reserve'', u_timestamp = 3, u_version = 2\<rparr>
   \<and> length (conflicts (fst (reserveInventory (readingsAt 3) staleTarget ''A'' ''sku1'' 5)))
     = length (conflicts staleTarget) + 1
   \<and> c_warehouseId
        (last (conflicts (fst (reserveInventory (readingsAt 3) staleTarget ''A'' ''sku1'' 5))))
     = ''B''
   \<and> c_resolved
        (last (conflicts (fst (reserveInventory (readingsAt 3) staleTarget ''A'' ''sku1'' 5))))
     = False
   \<and> c_resolution
        (last (conflicts (fst (reserveInventory (readingsAt 3) staleTarget ''A'' ''sku1'' 5))))
     = None
   \<and> getRecord (fst (reserveInventory (readingsAt 3) staleTarget ''A'' ''sku1'' 5))
        ''B'' ''sku1''
     = Some \<lparr>quantity = 3, reserved = 0, version = 2, lastUpdated = 2\<rparr>
   \<and> ss_unresolvedConflicts
        (getSyncStatus (fst (reserveInventory (readingsAt 3) staleTarget ''A'' ''sku1'' 5))) = 1"
  by (simp add: staleTarget_def getSyncStatus_def run_defs Let_def)

subsection \<open>The two-warehouse scenario\<close>

text \<open>
  Claim C5 fails as stated: with \<open>A\<close> and \<open>B\<close> registered, after
  \<open>updateInventory(A, "sku1", 100, "set")\<close> the global total is not 100.
\<close>

theorem scenario_total_counterexample:
  "g_totalQuantity (getGlobalInventory
      (fst (updateInventory (readingsAt 1) twoWarehouses ''A'' ''sku1'' 100 (Some ''set'')))
      ''sku1'' 2) \<noteq> 100"
  by (simp add: run_defs Let_def)

text \<open>
  Claim C5, as amended. Whatever the two locations and the readings of the clock,
  after registering \<open>A\<close> and \<open>B\<close> and setting \<open>sku1\<close> to 100 at \<open>A\<close>, the update
  reaches \<open>B\<close> without a conflict, \<open>B\<close> holds 100 at version 1, and
  \<open>getGlobalInventory\<close> adds the two warehouses up: \<open>totalQuantity\<close> is 200.
\<close>

theorem scenario_total_is_sum:
  "g_totalQuantity (getGlobalInventory
      (fst (updateInventory env
              (registerWarehouse (registerWarehouse constructor ''A'' x) ''B'' y)
              ''A'' ''sku1'' 100 (Some ''set'')))
      ''sku1'' clock) = 200
   \<and> getRecord (fst (updateInventory env
              (registerWarehouse (registerWarehouse constructor ''A'' x) ''B'' y)
              ''A'' ''sku1'' 100 (Some ''set''))) ''B'' ''sku1''
       = Some \<lparr>quantity = 100, reserved = 0, version = 1, lastUpdated = now env\<rparr>
   \<and> conflicts (fst (updateInventory env
              (registerWarehouse (registerWarehouse constructor ''A'' x) ''B'' y)
              ''A'' ''sku1'' 100 (Some ''set''))) = []"
  by (simp add: run_defs Let_def)

subsection \<open>Registering an id twice\<close>

text \<open>
  Claim C6 fails as stated: registering \<open>A\<close> again empties its inventory.
\<close>

theorem registerWarehouse_duplicate_counterexample:
  "getRecord fullyReserved ''A'' ''sku1''
     = Some \<lparr>quantity = 10, reserved = 10, version = 2, lastUpdated = 2\<rparr>
   \<and> getRecord (registerWarehouse fullyReserved ''A'' ''X'') ''A'' ''sku1'' = None"
  by (simp add: fullyReserved_def run_defs Let_def)

text \<open>
  Claim C6, as amended. \<open>registerWarehouse\<close> has no error result. Called with an id
  that is registered, it puts a fresh warehouse in the place of the old one (the
  new location, an empty inventory, no last sync, status \<open>active\<close>, lag 0), keeps
  the order of the warehouses, and leaves every other warehouse, the queue and the
  conflicts as they were.
\<close>

theorem registerWarehouse_replaces:
  assumes "map_of (warehouses s) w = Some wh"
  shows "map_of (warehouses (registerWarehouse s w l)) w
           = Some \<lparr>w_id = w, w_location = l, inventory = [], lastSync = None,
                   status = ''active'', lag = 0\<rparr>
       \<and> map fst (warehouses (registerWarehouse s w l)) = map fst (warehouses s)
       \<and> (\<forall>w'. w' \<noteq> w \<longrightarrow>
           map_of (warehouses (registerWarehouse s w l)) w' = map_of (warehouses s) w')
       \<and> syncQueue (registerWarehouse s w l) = syncQueue s
       \<and> conflicts (registerWarehouse s w l) = conflicts s"
proof -
  have "w \<in> fst ` set (warehouses s)" using assms by (force dest: map_of_SomeD)
  then have "map fst (warehouses (registerWarehouse s w l)) = map fst (warehouses s)"
    by (simp add: registerWarehouse_def update_keys)
  then show ?thesis by (simp add: registerWarehouse_def update_conv')
qed

theorem registerWarehouse_replaces_witness:
  "map_of (warehouses fullyReserved) ''A''
     = Some \<lparr>w_id = ''A'', w_location = ''X'',
             inventory = [(''sku1'', \<lparr>quantity = 10, reserved = 10, version = 2,
                                      lastUpdated = 2\<rparr>)],
             lastSync = None, status = ''active'', lag = 0\<rparr>
   \<and> map_of (warehouses (registerWarehouse fullyReserved ''A'' ''Z'')) ''A''
     = Some \<lparr>w_id = ''A'', w_location = ''Z'', inventory = [], lastSync = None,
             status = ''active'', lag = 0\<rparr>
   \<and> map fst (warehouses (registerWarehouse fullyReserved ''A'' ''Z''))
     = map fst (warehouses fullyReserved)"
proof -
  have h: "map_of (warehouses fullyReserved) ''A''
     = Some \<lparr>w_id = ''A'', w_location = ''X'',
             inventory = [(''sku1'', \<lparr>quantity = 10, reserved = 10, version = 2,
                                      lastUpdated = 2\<rparr>)],
             lastSync = None, status = ''active'', lag = 0\<rparr>"
    by (simp add: fullyReserved_def run_defs Let_def)
  from registerWarehouse_replaces [OF h, of "''Z''"] h show ?thesis by blast
qed

subsection \<open>Reading twice\<close>

text \<open>
  Claim C8 fails as stated: the result carries the clock reading of the call in
  \<open>lastUpdated\<close>, so two calls on the same service at different times differ.
\<close>

theorem getGlobalInventory_clock_counterexample:
  "getGlobalInventory twoWarehouses ''sku1'' 1 \<noteq> getGlobalInventory twoWarehouses ''sku1'' 2"
  by (simp add: run_defs)

text \<open>
  Claim C8, as amended. Two calls of \<open>getGlobalInventory\<close> on the same service and
  product give results equal in every field but \<open>lastUpdated\<close>, which is the clock
  reading of each call.
\<close>

theorem getGlobalInventory_repeat:
  "getGlobalInventory s p clock2 = (getGlobalInventory s p clock1)\<lparr>g_lastUpdated := clock2\<rparr>
   \<and> g_lastUpdated (getGlobalInventory s p clock2) = clock2"
  by (simp add: getGlobalInventory_def split: prod.splits)

subsection \<open>The sync queue\<close>

lemma updateInventory_unfold:
  "updateInventory env s w p q opn =
     (case map_of (warehouses s) w of
        None \<Rightarrow> (s, Inl (WarehouseNotFound w))
      | Some wh \<Rightarrow>
          (case applyUpdate wh (newUpdate env s w p q opn) of
             Inl e \<Rightarrow> (s\<lparr>syncQueue := syncQueue s @ [newUpdate env s w p q opn]\<rparr>, Inl e)
           | Inr wh' \<Rightarrow>
               (propagateUpdate env
                  (s\<lparr>syncQueue := syncQueue s @ [newUpdate env s w p q opn],
                     warehouses := AList.update w wh' (warehouses s)\<rparr>)
                  (newUpdate env s w p q opn),
                Inr (newUpdate env s w p q opn))))"
  by (simp add: updateInventory_def newUpdate_def Let_def split: option.splits sum.splits)

lemma updateInventory_queue:
  "syncQueue (fst (updateInventory env s w p q opn)) =
     (case map_of (warehouses s) w of
        None \<Rightarrow> syncQueue s
      | Some wh \<Rightarrow> syncQueue s @ [newUpdate env s w p q opn])"
  by (simp add: updateInventory_unfold propagateUpdate_fields split: option.splits sum.splits)

lemma updateInventory_queue_prefix:
  "prefix (syncQueue s) (syncQueue (fst (updateInventory env s w p q opn)))"
  by (simp add: updateInventory_queue split: option.splits)

lemma syncLoop_queue_prefix:
  "prefix (syncQueue s) (syncQueue (fst (syncLoop s w items us)))"
proof (induction items arbitrary: s us)
  case Nil
  then show ?case by simp
next
  case (Cons a items)
  obtain p q env where a: "a = (p, q, env)" by (cases a)
  obtain s' res where r: "updateInventory env s w p q (Some ''set'') = (s', res)"
    by (cases "updateInventory env s w p q (Some ''set'')")
  have 1: "prefix (syncQueue s) (syncQueue s')"
    using updateInventory_queue_prefix [of s env w p q "Some ''set''"] r by simp
  show ?case
  proof (cases res)
    case (Inl e)
    then show ?thesis using r 1 by (simp add: a)
  next
    case (Inr u)
    have "prefix (syncQueue s') (syncQueue (fst (syncLoop s' w items (us @ [u]))))"
      by (rule Cons.IH)
    with 1 have "prefix (syncQueue s) (syncQueue (fst (syncLoop s' w items (us @ [u]))))"
      by (rule prefix_order.trans)
    then show ?thesis using r Inr by (simp add: a)
  qed
qed

lemma commitReservation_queue_prefix:
  "prefix (syncQueue s) (syncQueue (fst (commitReservation env1 env2 s w p q)))"
proof -
  obtain s1 r1 where 1: "updateInventory env1 s w p q (Some ''release'') = (s1, r1)"
    by (cases "updateInventory env1 s w p q (Some ''release'')")
  obtain s2 r2 where 2: "updateInventory env2 s1 w p q (Some ''subtract'') = (s2, r2)"
    by (cases "updateInventory env2 s1 w p q (Some ''subtract'')")
  have p1: "prefix (syncQueue s) (syncQueue s1)"
    using updateInventory_queue_prefix [of s env1 w p q "Some ''release''"] 1 by simp
  have p2: "prefix (syncQueue s1) (syncQueue s2)"
    using updateInventory_queue_prefix [of s1 env2 w p q "Some ''subtract''"] 2 by simp
  from p1 p2 have "prefix (syncQueue s) (syncQueue s2)" by (rule prefix_order.trans)
  with p1 show ?thesis using 1 2
    by (simp add: commitReservation_def releaseInventory_def split: sum.splits)
qed

lemma perform_queue_prefix: "prefix (syncQueue s) (syncQueue (perform s c))"
proof (cases c)
  case (RegisterWarehouse w l)
  then show ?thesis by (simp add: registerWarehouse_def)
next
  case (UpdateInventory env w p q opn)
  then show ?thesis by (simp add: updateInventory_queue_prefix)
next
  case (ReserveInventory env w p q)
  then show ?thesis by (simp add: updateInventory_queue_prefix reserveInventory_def)
next
  case (ReleaseInventory env w p q)
  then show ?thesis by (simp add: updateInventory_queue_prefix releaseInventory_def)
next
  case (CommitReservation env1 env2 w p q)
  then show ?thesis by (simp add: commitReservation_queue_prefix)
next
  case (SyncFromExternalSystem w items)
  then show ?thesis
    by (simp add: syncFromExternalSystem_def syncLoop_queue_prefix split: option.splits)
qed

lemma getSyncStatus_queueLength: "ss_queueLength (getSyncStatus s) = length (syncQueue s)"
  by (simp add: getSyncStatus_def Let_def split: prod.splits)

text \<open>
  Claim C10. A call of \<open>updateInventory\<close> on a registered warehouse leaves the
  queue with exactly the update it built appended, whatever the call returns (the
  push precedes \<open>applyUpdate\<close>, so a reserve that throws is queued too). The queue
  before any call of the engine is a prefix of the queue after it, and
  \<open>queueLength\<close> of \<open>getSyncStatus\<close> is the length of the queue, so it never goes
  down.
\<close>

theorem syncQueue_grows:
  "(map_of (warehouses s) w \<noteq> None \<longrightarrow>
      syncQueue (fst (updateInventory env s w p q opn))
        = syncQueue s @ [newUpdate env s w p q opn])
   \<and> prefix (syncQueue s) (syncQueue (perform s c))
   \<and> ss_queueLength (getSyncStatus s) = length (syncQueue s)
   \<and> ss_queueLength (getSyncStatus s) \<le> ss_queueLength (getSyncStatus (perform s c))"
proof -
  have "length (syncQueue s) \<le> length (syncQueue (perform s c))"
    using perform_queue_prefix [of s c] by (rule prefix_length_le)
  then show ?thesis
    by (auto simp: updateInventory_queue perform_queue_prefix getSyncStatus_queueLength)
qed

text \<open>A reserve of 5 on an empty warehouse throws, and is counted in the queue.\<close>

theorem syncQueue_grows_witness:
  "map_of (warehouses twoWarehouses) ''A'' \<noteq> None
   \<and> snd (updateInventory (readingsAt 1) twoWarehouses ''A'' ''sku1'' 5 (Some ''reserve''))
     = Inl (InsufficientInventory 5)
   \<and> syncQueue (fst (updateInventory (readingsAt 1) twoWarehouses ''A'' ''sku1'' 5
                      (Some ''reserve'')))
     = syncQueue twoWarehouses @
       [\<lparr>u_id = ''upd'', u_warehouseId = ''A'', u_productId = ''sku1'', u_quantity = 5,
         u_operation = ''reserve'', u_timestamp = 1, u_version = 1\<rparr>]
   \<and> ss_queueLength (getSyncStatus twoWarehouses) = 0
   \<and> ss_queueLength (getSyncStatus (perform twoWarehouses
        (UpdateInventory (readingsAt 1) ''A'' ''sku1'' 5 (Some ''reserve'')))) = 1"
proof -
  have h: "map_of (warehouses twoWarehouses) ''A'' \<noteq> None"
    by (simp add: run_defs)
  have n: "newUpdate (readingsAt 1) twoWarehouses ''A'' ''sku1'' 5 (Some ''reserve'')
     = \<lparr>u_id = ''upd'', u_warehouseId = ''A'', u_productId = ''sku1'', u_quantity = 5,
         u_operation = ''reserve'', u_timestamp = 1, u_version = 1\<rparr>"
    by (simp add: newUpdate_def run_defs)
  have r: "snd (updateInventory (readingsAt 1) twoWarehouses ''A'' ''sku1'' 5 (Some ''reserve''))
     = Inl (InsufficientInventory 5)"
    by (simp add: run_defs Let_def)
  have q0: "syncQueue twoWarehouses = []" by (simp add: run_defs)
  from syncQueue_grows [of twoWarehouses "''A''" "readingsAt 1" "''sku1''" 5 "Some ''reserve''"
      "UpdateInventory (readingsAt 1) ''A'' ''sku1'' 5 (Some ''reserve'')"] h n r q0
  show ?thesis by (simp add: getSyncStatus_queueLength)
qed

subsection \<open>Propagation, warehouse by warehouse\<close>

lemma handleConflict_fst_indep:
  "fst (handleConflict env wh u cur cs) = fst (handleConflict env wh u cur [])"
  by (simp add: handleConflict_def Let_def split: sum.splits)

lemma syncToWarehouse_fst_indep:
  "fst (syncToWarehouse env wh u cs) = fst (syncToWarehouse env wh u [])"
proof -
  obtain r cs' where a: "handleConflict env wh u (the (map_of (inventory wh) (u_productId u))) cs = (r, cs')"
    by (cases "handleConflict env wh u (the (map_of (inventory wh) (u_productId u))) cs")
  obtain r0 cs0 where b: "handleConflict env wh u (the (map_of (inventory wh) (u_productId u))) [] = (r0, cs0)"
    by (cases "handleConflict env wh u (the (map_of (inventory wh) (u_productId u))) []")
  have "r = r0"
    using handleConflict_fst_indep [of env wh u "the (map_of (inventory wh) (u_productId u))" cs] a b
    by simp
  then show ?thesis using a b
    by (simp add: syncToWarehouse_def Let_def split: sum.splits)
qed

lemma propagateLoop_map_of:
  "map_of (fst (propagateLoop env u ws cs)) w' =
     map_option (\<lambda>wh'. if w' \<noteq> u_warehouseId u \<and> status wh' = ''active''
                        then fst (syncToWarehouse env wh' u []) else wh')
       (map_of ws w')"
proof (induction ws arbitrary: cs)
  case Nil
  then show ?case by simp
next
  case (Cons a ws)
  obtain w wh where a: "a = (w, wh)" by (cases a)
  show ?case
  proof (cases "w \<noteq> u_warehouseId u \<and> status wh = ''active''")
    case True
    obtain wh1 cs1 where s: "syncToWarehouse env wh u cs = (wh1, cs1)"
      by (cases "syncToWarehouse env wh u cs")
    have wh1: "wh1 = fst (syncToWarehouse env wh u [])"
      using syncToWarehouse_fst_indep [of env wh u cs] s by simp
    obtain rest cs2 where r: "propagateLoop env u ws cs1 = (rest, cs2)"
      by (cases "propagateLoop env u ws cs1")
    have "map_of rest w' = map_option (\<lambda>wh'. if w' \<noteq> u_warehouseId u \<and> status wh' = ''active''
                        then fst (syncToWarehouse env wh' u []) else wh') (map_of ws w')"
      using Cons.IH [of cs1] r by simp
    then show ?thesis using True s r wh1 by (simp add: a)
  next
    case False
    obtain rest cs2 where r: "propagateLoop env u ws cs = (rest, cs2)"
      by (cases "propagateLoop env u ws cs")
    have "map_of rest w' = map_option (\<lambda>wh'. if w' \<noteq> u_warehouseId u \<and> status wh' = ''active''
                        then fst (syncToWarehouse env wh' u []) else wh') (map_of ws w')"
      using Cons.IH [of cs] r by simp
    then show ?thesis using False r by (auto simp: a)
  qed
qed

lemma store_lookup:
  "map_of (inventory (store wh u q r)) p =
     (if p = u_productId u
      then Some \<lparr>quantity = q, reserved = r, version = u_version u, lastUpdated = u_timestamp u\<rparr>
      else map_of (inventory wh) p)"
  by (simp add: store_def update_conv')

lemma newUpdate_simps:
  "u_warehouseId (newUpdate env s w p q opn) = w"
  "u_productId (newUpdate env s w p q opn) = p"
  "u_quantity (newUpdate env s w p q opn) = q"
  "u_timestamp (newUpdate env s w p q opn) = now env"
  "u_version (newUpdate env s w p q opn) = getVersion s w p + 1"
  "u_operation (newUpdate env s w p q (Some opn')) = opn'"
  "u_operation (newUpdate env s w p q None) = ''set''"
  by (simp_all add: newUpdate_def)

lemma applyUpdate_other:
  assumes "u_operation u \<notin> {''set'', ''add'', ''subtract'', ''reserve'', ''release''}"
  shows "applyUpdate wh u =
     Inr (store wh u
           (case map_of (inventory wh) (u_productId u) of None \<Rightarrow> 0 | Some r \<Rightarrow> quantity r)
           (case map_of (inventory wh) (u_productId u) of None \<Rightarrow> 0 | Some r \<Rightarrow> reserved r))"
  using assms by (simp add: applyUpdate_def Let_def)

subsection \<open>Choosing a warehouse\<close>

lemma candidatesLoop_ids:
  "map cand_warehouseId (candidatesLoop random p q a ws k acc) =
     map cand_warehouseId acc @ map fst (filter (\<lambda>(w, wh). qualifies wh p q) ws)"
proof (induction ws arbitrary: k acc)
  case Nil
  then show ?case by simp
next
  case (Cons x ws)
  obtain w wh where x: "x = (w, wh)" by (cases x)
  show ?case
    by (simp add: x Cons.IH qualifies_def Let_def split: option.splits)
qed

lemma sort_key_head:
  assumes "sort_key f xs = c # rest"
  shows "\<exists>pre post. xs = pre @ c # post
           \<and> (\<forall>x\<in>set pre. f c < f x) \<and> (\<forall>x\<in>set post. f c \<le> f (x::'a))"
proof -
  have srt: "sorted (map f (c # rest))"
    using sorted_sort_key [of f xs] assms by simp
  have set: "set xs = set (c # rest)"
    using set_sort [of f xs] assms by simp
  have le: "f c \<le> f x" if "x \<in> set xs" for x
    using srt set that by auto
  have "filter (\<lambda>y. f y = f c) xs = filter (\<lambda>y. f y = f c) (c # rest)"
    using sort_key_stable [of f "f c" xs] assms by simp
  then have "filter (\<lambda>y. f y = f c) xs = c # filter (\<lambda>y. f y = f c) rest"
    by simp
  then obtain pre post where xs: "xs = pre @ c # post" and pre: "\<forall>u\<in>set pre. f u \<noteq> f c"
    by (auto simp: filter_eq_Cons_iff)
  have "\<forall>x\<in>set pre. f c < f x"
  proof
    fix x assume x: "x \<in> set pre"
    then have "f c \<le> f x" using le xs by simp
    moreover have "f x \<noteq> f c" using pre x by blast
    ultimately show "f c < f x" by simp
  qed
  moreover have "\<forall>x\<in>set post. f c \<le> f x" using le xs by simp
  ultimately show ?thesis using xs by blast
qed

text \<open>
  Claim C7, as amended. \<open>findOptimalWarehouse\<close> builds one candidate for each
  warehouse whose record for the product has \<open>quantity - reserved\<close> at least the
  requested quantity, in registration order, and for no other warehouse. It
  returns \<open>null\<close> exactly when there is no such warehouse. Otherwise it returns a
  candidate of least distance, and among those of least distance the one
  registered first: every candidate before it is strictly farther, every
  candidate after it at least as far.
\<close>

theorem findOptimalWarehouse_nearest_first:
  "map cand_warehouseId (candidatesLoop random p q a (warehouses s) 0 [])
     = map fst (filter (\<lambda>(w, wh). qualifies wh p q) (warehouses s))
   \<and> (findOptimalWarehouse random s p q a = None
        \<longleftrightarrow> filter (\<lambda>(w, wh). qualifies wh p q) (warehouses s) = [])
   \<and> (\<forall>c. findOptimalWarehouse random s p q a = Some c \<longrightarrow>
         (\<exists>pre post. candidatesLoop random p q a (warehouses s) 0 [] = pre @ c # post
            \<and> (\<forall>x\<in>set pre. cand_distance c < cand_distance x)
            \<and> (\<forall>x\<in>set post. cand_distance c \<le> cand_distance x)))"
proof -
  let ?cs = "candidatesLoop random p q a (warehouses s) 0 []"
  have ids: "map cand_warehouseId ?cs
     = map fst (filter (\<lambda>(w, wh). qualifies wh p q) (warehouses s))"
    using candidatesLoop_ids [of random p q a "warehouses s" 0 "[]"] by simp
  have "findOptimalWarehouse random s p q a = None \<longleftrightarrow> sort_key cand_distance ?cs = []"
    by (simp add: findOptimalWarehouse_def split: list.splits)
  also have "\<dots> \<longleftrightarrow> ?cs = []"
    using length_sort [of cand_distance ?cs] by (metis length_0_conv)
  also have "\<dots> \<longleftrightarrow> filter (\<lambda>(w, wh). qualifies wh p q) (warehouses s) = []"
    using ids by (metis map_is_Nil_conv)
  finally have none: "findOptimalWarehouse random s p q a = None
        \<longleftrightarrow> filter (\<lambda>(w, wh). qualifies wh p q) (warehouses s) = []" .
  have some: "\<exists>pre post. ?cs = pre @ c # post
            \<and> (\<forall>x\<in>set pre. cand_distance c < cand_distance x)
            \<and> (\<forall>x\<in>set post. cand_distance c \<le> cand_distance x)"
    if "findOptimalWarehouse random s p q a = Some c" for c
  proof -
    from that obtain rest where "sort_key cand_distance ?cs = c # rest"
      by (auto simp: findOptimalWarehouse_def split: list.splits)
    then show ?thesis by (rule sort_key_head)
  qed
  from ids none some show ?thesis by blast
qed

text \<open>
  Claim C7 fails as stated. \<open>B\<close> and \<open>A\<close> both hold 5 free units of \<open>sku1\<close> at the
  same distance 550; the tie on distance and on available stock should go to the
  lexicographically smaller id \<open>A\<close>, and the result is \<open>B\<close>, registered first.
\<close>

theorem tie_break_counterexample:
  "candidatesLoop tiedRandom ''sku1'' 1 ''Z'' (warehouses tiedWarehouses) 0 []
     = [\<lparr>cand_warehouseId = ''B'', cand_location = ''Y'', cand_available = 5,
          cand_distance = 550, cand_estimatedShipping = ''3-5 days''\<rparr>,
        \<lparr>cand_warehouseId = ''A'', cand_location = ''X'', cand_available = 5,
          cand_distance = 550, cand_estimatedShipping = ''3-5 days''\<rparr>]
   \<and> findOptimalWarehouse tiedRandom tiedWarehouses ''sku1'' 1 ''Z''
     = Some \<lparr>cand_warehouseId = ''B'', cand_location = ''Y'', cand_available = 5,
             cand_distance = 550, cand_estimatedShipping = ''3-5 days''\<rparr>"
  by (simp add: tiedWarehouses_def tiedRandom_def findOptimalWarehouse_def
        calculateDistance_def estimateShipping_def run_defs Let_def)

theorem findOptimalWarehouse_nearest_first_witness:
  "map cand_warehouseId
     (candidatesLoop tiedRandom ''sku1'' 1 ''Z'' (warehouses tiedWarehouses) 0 [])
     = [''B'', ''A'']
   \<and> findOptimalWarehouse tiedRandom tiedWarehouses ''sku1'' 1 ''Z''
     = Some \<lparr>cand_warehouseId = ''B'', cand_location = ''Y'', cand_available = 5,
             cand_distance = 550, cand_estimatedShipping = ''3-5 days''\<rparr>
   \<and> (\<exists>pre post.
         candidatesLoop tiedRandom ''sku1'' 1 ''Z'' (warehouses tiedWarehouses) 0 []
           = pre @ \<lparr>cand_warehouseId = ''B'', cand_location = ''Y'', cand_available = 5,
                     cand_distance = 550, cand_estimatedShipping = ''3-5 days''\<rparr> # post
         \<and> (\<forall>x\<in>set pre. 550 < cand_distance x)
         \<and> (\<forall>x\<in>set post. 550 \<le> cand_distance x))"
proof -
  have f: "map fst (filter (\<lambda>(w, wh). qualifies wh ''sku1'' 1) (warehouses tiedWarehouses))
             = [''B'', ''A'']"
    by (simp add: tiedWarehouses_def qualifies_def run_defs Let_def)
  have r: "findOptimalWarehouse tiedRandom tiedWarehouses ''sku1'' 1 ''Z''
     = Some \<lparr>cand_warehouseId = ''B'', cand_location = ''Y'', cand_available = 5,
             cand_distance = 550, cand_estimatedShipping = ''3-5 days''\<rparr>"
    by (simp add: tiedWarehouses_def tiedRandom_def findOptimalWarehouse_def
          calculateDistance_def estimateShipping_def run_defs Let_def)
  from findOptimalWarehouse_nearest_first [of tiedRandom "''sku1''" 1 "''Z''" tiedWarehouses]
    f r
  show ?thesis by simp
qed

subsection \<open>Versions\<close>

lemma getVersion_versionAt:
  "getVersion s w p = (case map_of (warehouses s) w of None \<Rightarrow> 0 | Some wh \<Rightarrow> versionAt wh p)"
  by (simp add: getVersion_def versionAt_def split: option.splits)

lemma applyUpdate_store:
  assumes "applyUpdate wh u = Inr wh1"
  shows "\<exists>q r. wh1 = store wh u q r"
  using assms by (auto simp: applyUpdate_def Let_def split: if_splits)

lemma versionAt_store:
  "versionAt (store wh u q r) p = (if p = u_productId u then u_version u else versionAt wh p)"
  by (simp add: versionAt_def store_lookup)

text \<open>
  A target either keeps its inventory (a failed apply, a conflict that keeps the
  current record) or stores the update; it stores it only without a conflict or
  when the update is newer.
\<close>

lemma syncToWarehouse_inventory:
  "inventory (fst (syncToWarehouse env wh u cs)) = inventory wh
   \<or> (\<exists>q r. inventory (fst (syncToWarehouse env wh u cs)) = inventory (store wh u q r)
        \<and> (case map_of (inventory wh) (u_productId u) of
              None \<Rightarrow> True
            | Some c \<Rightarrow> version c < u_version u \<or> lastUpdated c < u_timestamp u))"
proof (cases "map_of (inventory wh) (u_productId u)")
  case None
  show ?thesis
  proof (cases "applyUpdate wh u")
    case (Inl e)
    then show ?thesis using None by (simp add: syncToWarehouse_def)
  next
    case (Inr wh1)
    then obtain q r where "wh1 = store wh u q r" using applyUpdate_store by blast
    then show ?thesis using None Inr by (auto simp: syncToWarehouse_def)
  qed
next
  case (Some c)
  show ?thesis
  proof (cases "applyUpdate wh u")
    case (Inl e)
    then show ?thesis using Some
      by (simp add: syncToWarehouse_def handleConflict_def Let_def)
  next
    case (Inr wh1)
    then obtain q r where "wh1 = store wh u q r" using applyUpdate_store by blast
    then show ?thesis using Some Inr
      by (auto simp: syncToWarehouse_def handleConflict_def Let_def)
  qed
qed

lemma syncToWarehouse_version_other:
  assumes "p \<noteq> u_productId u"
  shows "versionAt (fst (syncToWarehouse env wh u cs)) p = versionAt wh p"
  using syncToWarehouse_inventory [of env wh u cs] assms
  by (auto simp: versionAt_def store_lookup)

lemma syncToWarehouse_version_mono:
  assumes "0 \<le> u_version u"
    and "case map_of (inventory wh) (u_productId u) of
           None \<Rightarrow> True
         | Some c \<Rightarrow> version c < u_version u \<or> u_timestamp u \<le> lastUpdated c"
  shows "versionAt wh (u_productId u) \<le> versionAt (fst (syncToWarehouse env wh u cs)) (u_productId u)"
  using syncToWarehouse_inventory [of env wh u cs] assms
  by (auto simp: versionAt_def store_lookup split: option.splits)

lemma syncToWarehouse_version_cases:
  "versionAt (fst (syncToWarehouse env wh u cs)) (u_productId u)
     \<in> {versionAt wh (u_productId u), u_version u}"
  using syncToWarehouse_inventory [of env wh u cs]
  by (auto simp: versionAt_def store_lookup split: option.splits)

lemma updateInventory_map_of:
  "map_of (warehouses (fst (updateInventory env s w p q opn))) w' =
     (case map_of (warehouses s) w of
        None \<Rightarrow> map_of (warehouses s) w'
      | Some wh \<Rightarrow>
          (case applyUpdate wh (newUpdate env s w p q opn) of
             Inl e \<Rightarrow> map_of (warehouses s) w'
           | Inr wh1 \<Rightarrow>
               if w' = w then Some wh1
               else map_option
                      (\<lambda>wh'. if status wh' = ''active''
                             then fst (syncToWarehouse env wh' (newUpdate env s w p q opn) [])
                             else wh')
                      (map_of (warehouses s) w')))"
  by (simp add: updateInventory_unfold propagateUpdate_fields propagateLoop_map_of
        update_conv' newUpdate_simps split: option.splits sum.splits)

lemma origin_version:
  "getVersion (fst (updateInventory env s w p q opn)) w p
     \<in> {getVersion s w p, getVersion s w p + 1}"
proof (cases "map_of (warehouses s) w")
  case None
  then show ?thesis by (simp add: getVersion_versionAt updateInventory_map_of)
next
  case (Some wh)
  show ?thesis
  proof (cases "applyUpdate wh (newUpdate env s w p q opn)")
    case (Inl e)
    then show ?thesis using Some by (simp add: getVersion_versionAt updateInventory_map_of)
  next
    case (Inr wh1)
    then obtain q' r' where "wh1 = store wh (newUpdate env s w p q opn) q' r'"
      using applyUpdate_store by blast
    then have "versionAt wh1 p = versionAt wh p + 1"
      using Some by (simp add: versionAt_store newUpdate_simps getVersion_versionAt)
    then show ?thesis using Some Inr by (simp add: getVersion_versionAt updateInventory_map_of)
  qed
qed

lemma other_product_version:
  assumes "p' \<noteq> p"
  shows "getVersion (fst (updateInventory env s w p q opn)) w' p' = getVersion s w' p'"
proof (cases "map_of (warehouses s) w")
  case None
  then show ?thesis by (simp add: getVersion_versionAt updateInventory_map_of)
next
  case (Some wh)
  show ?thesis
  proof (cases "applyUpdate wh (newUpdate env s w p q opn)")
    case (Inl e)
    then show ?thesis using Some by (simp add: getVersion_versionAt updateInventory_map_of)
  next
    case (Inr wh1)
    then obtain q' r' where wh1: "wh1 = store wh (newUpdate env s w p q opn) q' r'"
      using applyUpdate_store by blast
    show ?thesis
    proof (cases "w' = w")
      case True
      then show ?thesis using Some Inr wh1 assms
        by (simp add: getVersion_versionAt updateInventory_map_of versionAt_store newUpdate_simps)
    next
      case False
      then show ?thesis using Some Inr assms
        by (auto simp: getVersion_versionAt updateInventory_map_of newUpdate_simps
              syncToWarehouse_version_other split: option.splits)
    qed
  qed
qed

lemma target_version:
  assumes "w' \<noteq> w"
  shows "getVersion (fst (updateInventory env s w p q opn)) w' p
           \<in> {getVersion s w' p, getVersion s w p + 1}"
    and "0 \<le> getVersion s w p \<Longrightarrow>
         (case getRecord s w' p of
            None \<Rightarrow> True
          | Some r \<Rightarrow> version r < getVersion s w p + 1 \<or> now env \<le> lastUpdated r) \<Longrightarrow>
         getVersion s w' p \<le> getVersion (fst (updateInventory env s w p q opn)) w' p"
proof -
  let ?u = "newUpdate env s w p q opn"
  show "getVersion (fst (updateInventory env s w p q opn)) w' p
           \<in> {getVersion s w' p, getVersion s w p + 1}"
    using assms syncToWarehouse_version_cases [of env _ ?u "[]"]
    by (auto simp: getVersion_versionAt [of _ w'] updateInventory_map_of newUpdate_simps
          split: option.splits sum.splits)
  assume v: "0 \<le> getVersion s w p"
    and c: "case getRecord s w' p of
            None \<Rightarrow> True
          | Some r \<Rightarrow> version r < getVersion s w p + 1 \<or> now env \<le> lastUpdated r"
  have uv: "0 \<le> u_version ?u" using v by (simp add: newUpdate_simps)
  show "getVersion s w' p \<le> getVersion (fst (updateInventory env s w p q opn)) w' p"
  proof (cases "map_of (warehouses s) w'")
    case None
    then show ?thesis using assms
      by (simp add: getVersion_versionAt [of _ w'] updateInventory_map_of
            split: option.splits sum.splits)
  next
    case (Some wh')
    have "case map_of (inventory wh') (u_productId ?u) of
           None \<Rightarrow> True
         | Some c \<Rightarrow> version c < u_version ?u \<or> u_timestamp ?u \<le> lastUpdated c"
      using c Some by (simp add: getRecord_def newUpdate_simps split: option.splits)
    from syncToWarehouse_version_mono [OF uv this, of env "[]"]
    have "versionAt wh' p \<le> versionAt (fst (syncToWarehouse env wh' ?u [])) p"
      by (simp add: newUpdate_simps)
    then show ?thesis using assms Some
      by (simp add: getVersion_versionAt [of _ w'] updateInventory_map_of
            split: option.splits sum.splits)
  qed
qed

text \<open>
  Claim C3 fails as stated. \<open>A\<close> holds \<open>sku1\<close> at version 2 when \<open>B\<close>, registered
  later, sets \<open>sku1\<close> at time 3. The update carries version 1; at \<open>A\<close> it is a
  conflict, it is newer, and last-write-wins stores it: \<open>A\<close> goes from version 2 to 1.
\<close>

theorem version_decreases_counterexample:
  "getVersion laterRegistered ''A'' ''sku1'' = 2
   \<and> getVersion (fst (updateInventory (readingsAt 3) laterRegistered ''B'' ''sku1'' 7
                       (Some ''set''))) ''A'' ''sku1'' = 1"
  by (simp add: laterRegistered_def run_defs Let_def)

text \<open>
  Claim C3, as amended. Let \<open>updateInventory\<close> be called at warehouse \<open>w\<close> for product
  \<open>p\<close>, the version there being at least 0. Then the version of \<open>p\<close> at \<open>w\<close> does not
  go down, no version of another product changes at any warehouse, and at another
  warehouse the version of \<open>p\<close> does not go down unless its record has a version at
  least the update's and a \<open>lastUpdated\<close> before the update's timestamp. In that
  last case the version either stays or becomes the update's version.
\<close>

theorem version_monotone_unless_accepted:
  assumes "0 \<le> getVersion s w p"
  shows "getVersion s w p \<le> getVersion (fst (updateInventory env s w p q opn)) w p
    \<and> (\<forall>w' p'. p' \<noteq> p \<longrightarrow>
          getVersion (fst (updateInventory env s w p q opn)) w' p' = getVersion s w' p')
    \<and> (\<forall>w'. w' \<noteq> w
          \<and> (case getRecord s w' p of
                None \<Rightarrow> True
              | Some r \<Rightarrow> version r < getVersion s w p + 1 \<or> now env \<le> lastUpdated r)
          \<longrightarrow> getVersion s w' p \<le> getVersion (fst (updateInventory env s w p q opn)) w' p)
    \<and> (\<forall>w'. w' \<noteq> w
          \<longrightarrow> getVersion (fst (updateInventory env s w p q opn)) w' p
                \<in> {getVersion s w' p, getVersion s w p + 1})"
proof -
  have 1: "getVersion s w p \<le> getVersion (fst (updateInventory env s w p q opn)) w p"
    using origin_version [of env s w p q opn] by auto
  show ?thesis
    using 1 other_product_version [where p = p and env = env and s = s and w = w and q = q
        and opn = opn]
      target_version [where w = w and env = env and s = s and p = p and q = q and opn = opn]
      assms
    by blast
qed

text \<open>The scenario of two fresh warehouses: both go from version 0 to 1.\<close>

theorem version_monotone_unless_accepted_witness:
  "0 \<le> getVersion twoWarehouses ''A'' ''sku1''
   \<and> getVersion twoWarehouses ''A'' ''sku1''
       \<le> getVersion (fst (updateInventory (readingsAt 1) twoWarehouses ''A'' ''sku1'' 100
                            (Some ''set''))) ''A'' ''sku1''
   \<and> getVersion twoWarehouses ''B'' ''sku1''
       \<le> getVersion (fst (updateInventory (readingsAt 1) twoWarehouses ''A'' ''sku1'' 100
                            (Some ''set''))) ''B'' ''sku1''
   \<and> getVersion (fst (updateInventory (readingsAt 1) twoWarehouses ''A'' ''sku1'' 100
                       (Some ''set''))) ''B'' ''sku1'' = 1"
proof -
  have h: "0 \<le> getVersion twoWarehouses ''A'' ''sku1''"
    by (simp add: run_defs)
  have g: "getRecord twoWarehouses ''B'' ''sku1'' = None"
    by (simp add: run_defs)
  have e: "getVersion (fst (updateInventory (readingsAt 1) twoWarehouses ''A'' ''sku1'' 100
                       (Some ''set''))) ''B'' ''sku1'' = 1"
    by (simp add: run_defs Let_def)
  note t = version_monotone_unless_accepted [OF h, of "readingsAt 1" 100 "Some ''set''"]
  note a = t [THEN conjunct1]
  have b: "getVersion twoWarehouses ''B'' ''sku1''
       \<le> getVersion (fst (updateInventory (readingsAt 1) twoWarehouses ''A'' ''sku1'' 100
                            (Some ''set''))) ''B'' ''sku1''"
    by (rule t [THEN conjunct2, THEN conjunct2, THEN conjunct1, rule_format, of "''B''"])
      (simp add: g)
  from h a b e show ?thesis by (intro conjI)
qed

subsection \<open>Versions in reachable states\<close>

text \<open>
  Versions start at 0 and every stored version is one more than a version read, so
  in every state reached from the empty service no version is negative: the
  hypothesis of the theorem on versions holds there.
\<close>

lemma versionsNonneg_getVersion:
  assumes "versionsNonneg s"
  shows "0 \<le> getVersion s w p"
  using assms
  by (auto simp: versionsNonneg_def getVersion_def list_all_iff split: option.splits
      dest!: map_of_SomeD)

lemma store_versions:
  assumes "list_all (\<lambda>(p, r). 0 \<le> version r) (inventory wh)" "0 \<le> u_version u"
  shows "list_all (\<lambda>(p, r). 0 \<le> version r) (inventory (store wh u q r))"
  using assms by (auto simp: store_def list_all_iff dest!: set_update_cases)

lemma syncToWarehouse_versions:
  assumes "list_all (\<lambda>(p, r). 0 \<le> version r) (inventory wh)" "0 \<le> u_version u"
  shows "list_all (\<lambda>(p, r). 0 \<le> version r) (inventory (fst (syncToWarehouse env wh u cs)))"
  using syncToWarehouse_inventory [of env wh u cs] store_versions [OF assms] assms(1)
  by auto

lemma propagateLoop_versions:
  assumes "list_all (\<lambda>(w, wh). list_all (\<lambda>(p, r). 0 \<le> version r) (inventory wh)) ws"
    and "0 \<le> u_version u"
  shows "list_all (\<lambda>(w, wh). list_all (\<lambda>(p, r). 0 \<le> version r) (inventory wh))
           (fst (propagateLoop env u ws cs))"
  using assms(1)
proof (induction ws arbitrary: cs)
  case Nil
  then show ?case by simp
next
  case (Cons a ws)
  obtain w wh where a: "a = (w, wh)" by (cases a)
  from Cons.prems have wh: "list_all (\<lambda>(p, r). 0 \<le> version r) (inventory wh)"
    and rest: "list_all (\<lambda>(w, wh). list_all (\<lambda>(p, r). 0 \<le> version r) (inventory wh)) ws"
    by (auto simp: a)
  obtain wh1 cs1 where s: "syncToWarehouse env wh u cs = (wh1, cs1)"
    by (cases "syncToWarehouse env wh u cs")
  have wh1: "list_all (\<lambda>(p, r). 0 \<le> version r) (inventory wh1)"
    using syncToWarehouse_versions [OF wh assms(2), of env cs] s by simp
  obtain r1 c1 where p1: "propagateLoop env u ws cs1 = (r1, c1)"
    by (cases "propagateLoop env u ws cs1")
  obtain r2 c2 where p2: "propagateLoop env u ws cs = (r2, c2)"
    by (cases "propagateLoop env u ws cs")
  have "list_all (\<lambda>(w, wh). list_all (\<lambda>(p, r). 0 \<le> version r) (inventory wh)) r1"
    using Cons.IH [OF rest, of cs1] p1 by simp
  moreover have "list_all (\<lambda>(w, wh). list_all (\<lambda>(p, r). 0 \<le> version r) (inventory wh)) r2"
    using Cons.IH [OF rest, of cs] p2 by simp
  ultimately show ?case using wh wh1 s p1 p2 by (simp add: a)
qed

lemma updateInventory_versions:
  assumes "versionsNonneg s"
  shows "versionsNonneg (fst (updateInventory env s w p q opn))"
proof (cases "map_of (warehouses s) w")
  case None
  then show ?thesis using assms by (simp add: updateInventory_unfold)
next
  case (Some wh)
  let ?u = "newUpdate env s w p q opn"
  have uv: "0 \<le> u_version ?u"
    using versionsNonneg_getVersion [OF assms, of w p] by (simp add: newUpdate_simps)
  have wh: "list_all (\<lambda>(p, r). 0 \<le> version r) (inventory wh)"
    using assms Some by (auto simp: versionsNonneg_def list_all_iff dest!: map_of_SomeD)
  show ?thesis
  proof (cases "applyUpdate wh ?u")
    case (Inl e)
    then show ?thesis using assms Some
      by (simp add: updateInventory_unfold versionsNonneg_def)
  next
    case (Inr wh1)
    then obtain q' r' where "wh1 = store wh ?u q' r'" using applyUpdate_store by blast
    then have wh1: "list_all (\<lambda>(p, r). 0 \<le> version r) (inventory wh1)"
      using store_versions [OF wh uv] by simp
    have "list_all (\<lambda>(w, wh). list_all (\<lambda>(p, r). 0 \<le> version r) (inventory wh))
            (AList.update w wh1 (warehouses s))"
      using assms wh1 by (auto simp: versionsNonneg_def list_all_iff dest!: set_update_cases)
    from propagateLoop_versions [OF this uv, of env "conflicts s"]
    show ?thesis using Some Inr
      by (simp add: updateInventory_unfold versionsNonneg_def propagateUpdate_fields)
  qed
qed

lemma syncLoop_versions:
  assumes "versionsNonneg s"
  shows "versionsNonneg (fst (syncLoop s w items us))"
  using assms
proof (induction items arbitrary: s us)
  case Nil
  then show ?case by simp
next
  case (Cons a items)
  obtain p q env where a: "a = (p, q, env)" by (cases a)
  obtain s' res where r: "updateInventory env s w p q (Some ''set'') = (s', res)"
    by (cases "updateInventory env s w p q (Some ''set'')")
  have s': "versionsNonneg s'"
    using updateInventory_versions [OF Cons.prems, of env w p q "Some ''set''"] r by simp
  show ?case
  proof (cases res)
    case (Inl e)
    then show ?thesis using r s' by (simp add: a)
  next
    case (Inr u)
    then show ?thesis using r Cons.IH [OF s', of "us @ [u]"] by (simp add: a)
  qed
qed

lemma perform_versions:
  assumes "versionsNonneg s"
  shows "versionsNonneg (perform s c)"
proof (cases c)
  case (RegisterWarehouse w l)
  then show ?thesis using assms
    by (auto simp: versionsNonneg_def registerWarehouse_def list_all_iff dest!: set_update_cases)
next
  case (UpdateInventory env w p q opn)
  then show ?thesis using assms by (simp add: updateInventory_versions)
next
  case (ReserveInventory env w p q)
  then show ?thesis using assms by (simp add: updateInventory_versions reserveInventory_def)
next
  case (ReleaseInventory env w p q)
  then show ?thesis using assms by (simp add: updateInventory_versions releaseInventory_def)
next
  case (CommitReservation env1 env2 w p q)
  obtain s1 r1 where 1: "updateInventory env1 s w p q (Some ''release'') = (s1, r1)"
    by (cases "updateInventory env1 s w p q (Some ''release'')")
  obtain s2 r2 where 2: "updateInventory env2 s1 w p q (Some ''subtract'') = (s2, r2)"
    by (cases "updateInventory env2 s1 w p q (Some ''subtract'')")
  have s1: "versionsNonneg s1"
    using updateInventory_versions [OF assms, of env1 w p q "Some ''release''"] 1 by simp
  have s2: "versionsNonneg s2"
    using updateInventory_versions [OF s1, of env2 w p q "Some ''subtract''"] 2 by simp
  show ?thesis using CommitReservation 1 2 s1 s2
    by (simp add: commitReservation_def releaseInventory_def split: sum.splits)
next
  case (SyncFromExternalSystem w items)
  then show ?thesis using assms syncLoop_versions [OF assms, of w items "[]"]
    by (simp add: syncFromExternalSystem_def split: option.splits)
qed

lemma reachable_versions:
  "versionsNonneg (foldl perform constructor calls)"
proof (induction calls rule: rev_induct)
  case Nil
  then show ?case by (simp add: versionsNonneg_def constructor_def)
next
  case (snoc c calls)
  then show ?case by (simp add: perform_versions)
qed

lemma reachable_getVersion:
  "0 \<le> getVersion (foldl perform constructor calls) w p"
  by (rule versionsNonneg_getVersion [OF reachable_versions])

subsection \<open>Operations outside the five\<close>

text \<open>
  With an operation outside the five, \<open>syncToWarehouse\<close> cannot fail. Without a
  conflict it stores the target's own \<open>quantity\<close> and \<open>reserved\<close> under the update's
  version and timestamp and sets \<open>lastSync\<close>; with a conflict it stores the same
  record when the update is newer and keeps the warehouse as it is otherwise.
\<close>

lemma syncToWarehouse_other:
  assumes "u_operation u \<notin> {''set'', ''add'', ''subtract'', ''reserve'', ''release''}"
  shows "fst (syncToWarehouse env wh u cs) =
     (case map_of (inventory wh) (u_productId u) of
        None \<Rightarrow>
          wh\<lparr>inventory := AList.update (u_productId u)
                \<lparr>quantity = 0, reserved = 0, version = u_version u,
                 lastUpdated = u_timestamp u\<rparr> (inventory wh),
             lastSync := Some (syncNow env (w_id wh))\<rparr>
      | Some r \<Rightarrow>
          if version r < u_version u then
            wh\<lparr>inventory := AList.update (u_productId u)
                  \<lparr>quantity = quantity r, reserved = reserved r, version = u_version u,
                   lastUpdated = u_timestamp u\<rparr> (inventory wh),
               lastSync := Some (syncNow env (w_id wh))\<rparr>
          else if lastUpdated r < u_timestamp u then
            wh\<lparr>inventory := AList.update (u_productId u)
                  \<lparr>quantity = quantity r, reserved = reserved r, version = u_version u,
                   lastUpdated = u_timestamp u\<rparr> (inventory wh)\<rparr>
          else wh)"
  by (simp add: syncToWarehouse_def handleConflict_def applyUpdate_other [OF assms] store_def
        Let_def split: option.splits)

text \<open>
  Claim C9. On a registered warehouse \<open>w\<close>, an operation string that is none of
  \<open>set\<close>, \<open>add\<close>, \<open>subtract\<close>, \<open>reserve\<close>, \<open>release\<close> makes \<open>updateInventory\<close> return the
  update, whose version is the prior version of the record plus one (one, if there
  was no record). The update is appended to the queue. The warehouse \<open>w\<close> is as
  before but for the record of the product, which keeps its \<open>quantity\<close> and
  \<open>reserved\<close> (both 0 if there was no record) and gets that version and the update's
  timestamp. The update is propagated: every other active warehouse without a
  record of the product, or with one of a lower version, gets a record with its
  own \<open>quantity\<close> and \<open>reserved\<close> (0 if it had none), the update's version and
  timestamp, and a new \<open>lastSync\<close>; one with a record of the same or a higher version
  gets that record too if the update's timestamp is later than its \<open>lastUpdated\<close>,
  and stays as it is otherwise. A warehouse that is not active stays as it is.
\<close>

theorem unknown_operation_bumps_version:
  assumes "map_of (warehouses s) w = Some wh"
    and "opn \<notin> {''set'', ''add'', ''subtract'', ''reserve'', ''release''}"
  shows "snd (updateInventory env s w p q (Some opn))
      = Inr \<lparr>u_id = updateId env, u_warehouseId = w, u_productId = p, u_quantity = q,
             u_operation = opn, u_timestamp = now env,
             u_version = (case map_of (inventory wh) p of None \<Rightarrow> 0 | Some r \<Rightarrow> version r) + 1\<rparr>
    \<and> syncQueue (fst (updateInventory env s w p q (Some opn)))
      = syncQueue s @
        [\<lparr>u_id = updateId env, u_warehouseId = w, u_productId = p, u_quantity = q,
          u_operation = opn, u_timestamp = now env,
          u_version = (case map_of (inventory wh) p of None \<Rightarrow> 0 | Some r \<Rightarrow> version r) + 1\<rparr>]
    \<and> map_of (warehouses (fst (updateInventory env s w p q (Some opn)))) w
      = Some (wh\<lparr>inventory := AList.update p
                \<lparr>quantity = (case map_of (inventory wh) p of None \<Rightarrow> 0 | Some r \<Rightarrow> quantity r),
                 reserved = (case map_of (inventory wh) p of None \<Rightarrow> 0 | Some r \<Rightarrow> reserved r),
                 version = (case map_of (inventory wh) p of None \<Rightarrow> 0 | Some r \<Rightarrow> version r) + 1,
                 lastUpdated = now env\<rparr> (inventory wh)\<rparr>)
    \<and> (\<forall>w' wh'. w' \<noteq> w \<and> map_of (warehouses s) w' = Some wh' \<and> status wh' = ''active''
          \<longrightarrow> map_of (warehouses (fst (updateInventory env s w p q (Some opn)))) w'
              = Some (case map_of (inventory wh') p of
                  None \<Rightarrow>
                    wh'\<lparr>inventory := AList.update p
                          \<lparr>quantity = 0, reserved = 0,
                           version = (case map_of (inventory wh) p of
                                        None \<Rightarrow> 0 | Some r \<Rightarrow> version r) + 1,
                           lastUpdated = now env\<rparr> (inventory wh'),
                        lastSync := Some (syncNow env (w_id wh'))\<rparr>
                | Some c \<Rightarrow>
                    if version c < (case map_of (inventory wh) p of
                                      None \<Rightarrow> 0 | Some r \<Rightarrow> version r) + 1 then
                      wh'\<lparr>inventory := AList.update p
                            \<lparr>quantity = quantity c, reserved = reserved c,
                             version = (case map_of (inventory wh) p of
                                          None \<Rightarrow> 0 | Some r \<Rightarrow> version r) + 1,
                             lastUpdated = now env\<rparr> (inventory wh'),
                          lastSync := Some (syncNow env (w_id wh'))\<rparr>
                    else if lastUpdated c < now env then
                      wh'\<lparr>inventory := AList.update p
                            \<lparr>quantity = quantity c, reserved = reserved c,
                             version = (case map_of (inventory wh) p of
                                          None \<Rightarrow> 0 | Some r \<Rightarrow> version r) + 1,
                             lastUpdated = now env\<rparr> (inventory wh')\<rparr>
                    else wh'))
    \<and> (\<forall>w' wh'. w' \<noteq> w \<and> map_of (warehouses s) w' = Some wh' \<and> status wh' \<noteq> ''active''
          \<longrightarrow> map_of (warehouses (fst (updateInventory env s w p q (Some opn)))) w' = Some wh')"
proof -
  let ?u = "newUpdate env s w p q (Some opn)"
  let ?pv = "case map_of (inventory wh) p of None \<Rightarrow> 0 | Some r \<Rightarrow> version r"
  let ?cq = "case map_of (inventory wh) p of None \<Rightarrow> 0 | Some r \<Rightarrow> quantity r"
  let ?cr = "case map_of (inventory wh) p of None \<Rightarrow> 0 | Some r \<Rightarrow> reserved r"
  have gv: "getVersion s w p = ?pv"
    using assms(1) by (simp add: getVersion_def)
  have u: "?u = \<lparr>u_id = updateId env, u_warehouseId = w, u_productId = p, u_quantity = q,
             u_operation = opn, u_timestamp = now env, u_version = ?pv + 1\<rparr>"
    by (simp add: newUpdate_def gv)
  have op: "u_operation ?u \<notin> {''set'', ''add'', ''subtract'', ''reserve'', ''release''}"
    using assms(2) by (simp add: newUpdate_simps)
  have ap: "applyUpdate wh ?u = Inr (store wh ?u ?cq ?cr)"
    using applyUpdate_other [OF op, of wh] by (simp add: newUpdate_simps)
  have 1: "snd (updateInventory env s w p q (Some opn)) = Inr ?u"
    using assms(1) ap by (simp add: updateInventory_unfold)
  have 2: "syncQueue (fst (updateInventory env s w p q (Some opn))) = syncQueue s @ [?u]"
    using assms(1) by (simp add: updateInventory_queue)
  have 3: "map_of (warehouses (fst (updateInventory env s w p q (Some opn)))) w
      = Some (wh\<lparr>inventory := AList.update p
                \<lparr>quantity = ?cq, reserved = ?cr, version = ?pv + 1, lastUpdated = now env\<rparr>
                (inventory wh)\<rparr>)"
    using assms(1) ap by (simp add: updateInventory_map_of store_def newUpdate_simps gv)
  have 4: "map_of (warehouses (fst (updateInventory env s w p q (Some opn)))) w'
              = Some (case map_of (inventory wh') p of
                  None \<Rightarrow>
                    wh'\<lparr>inventory := AList.update p
                          \<lparr>quantity = 0, reserved = 0, version = ?pv + 1,
                           lastUpdated = now env\<rparr> (inventory wh'),
                        lastSync := Some (syncNow env (w_id wh'))\<rparr>
                | Some c \<Rightarrow>
                    if version c < ?pv + 1 then
                      wh'\<lparr>inventory := AList.update p
                            \<lparr>quantity = quantity c, reserved = reserved c,
                             version = ?pv + 1, lastUpdated = now env\<rparr> (inventory wh'),
                          lastSync := Some (syncNow env (w_id wh'))\<rparr>
                    else if lastUpdated c < now env then
                      wh'\<lparr>inventory := AList.update p
                            \<lparr>quantity = quantity c, reserved = reserved c,
                             version = ?pv + 1, lastUpdated = now env\<rparr> (inventory wh')\<rparr>
                    else wh')"
    if "w' \<noteq> w \<and> map_of (warehouses s) w' = Some wh' \<and> status wh' = ''active''" for w' wh'
    using that assms(1) ap syncToWarehouse_other [OF op, of env wh' "[]"]
    by (simp add: updateInventory_map_of newUpdate_simps gv split: option.splits)
  have 5: "map_of (warehouses (fst (updateInventory env s w p q (Some opn)))) w' = Some wh'"
    if "w' \<noteq> w \<and> map_of (warehouses s) w' = Some wh' \<and> status wh' \<noteq> ''active''" for w' wh'
    using that assms(1) ap by (simp add: updateInventory_map_of)
  from 1 2 3 4 5 show ?thesis unfolding u by blast
qed

text \<open>
  The operation \<open>audit\<close> at \<open>A\<close> at time 3, with \<open>A\<close> and \<open>B\<close> both holding 50 of
  \<open>sku1\<close>, 20 reserved, at version 2: both keep 50 and 20 and go to version 3.
\<close>

theorem unknown_operation_bumps_version_witness:
  "map_of (warehouses stockedWarehouses) ''A''
     = Some \<lparr>w_id = ''A'', w_location = ''X'',
             inventory = [(''sku1'', \<lparr>quantity = 50, reserved = 20, version = 2,
                                      lastUpdated = 2\<rparr>)],
             lastSync = None, status = ''active'', lag = 0\<rparr>
   \<and> ''audit'' \<notin> {''set'', ''add'', ''subtract'', ''reserve'', ''release''}
   \<and> map_of (warehouses stockedWarehouses) ''B''
     = Some \<lparr>w_id = ''B'', w_location = ''Y'',
             inventory = [(''sku1'', \<lparr>quantity = 50, reserved = 20, version = 2,
                                      lastUpdated = 2\<rparr>)],
             lastSync = Some 2, status = ''active'', lag = 0\<rparr>
   \<and> snd (updateInventory (readingsAt 3) stockedWarehouses ''A'' ''sku1'' 7 (Some ''audit''))
     = Inr \<lparr>u_id = ''upd'', u_warehouseId = ''A'', u_productId = ''sku1'', u_quantity = 7,
            u_operation = ''audit'', u_timestamp = 3, u_version = 3\<rparr>
   \<and> map_of (warehouses (fst (updateInventory (readingsAt 3) stockedWarehouses ''A'' ''sku1'' 7
                                  (Some ''audit'')))) ''A''
     = Some \<lparr>w_id = ''A'', w_location = ''X'',
             inventory = [(''sku1'', \<lparr>quantity = 50, reserved = 20, version = 3,
                                      lastUpdated = 3\<rparr>)],
             lastSync = None, status = ''active'', lag = 0\<rparr>
   \<and> map_of (warehouses (fst (updateInventory (readingsAt 3) stockedWarehouses ''A'' ''sku1'' 7
                                  (Some ''audit'')))) ''B''
     = Some \<lparr>w_id = ''B'', w_location = ''Y'',
             inventory = [(''sku1'', \<lparr>quantity = 50, reserved = 20, version = 3,
                                      lastUpdated = 3\<rparr>)],
             lastSync = Some 3, status = ''active'', lag = 0\<rparr>"
proof -
  have h1: "map_of (warehouses stockedWarehouses) ''A''
     = Some \<lparr>w_id = ''A'', w_location = ''X'',
             inventory = [(''sku1'', \<lparr>quantity = 50, reserved = 20, version = 2,
                                      lastUpdated = 2\<rparr>)],
             lastSync = None, status = ''active'', lag = 0\<rparr>"
    by (simp add: stockedWarehouses_def run_defs Let_def)
  have h2: "''audit'' \<notin> {''set'', ''add'', ''subtract'', ''reserve'', ''release''}"
    by simp
  have b: "map_of (warehouses stockedWarehouses) ''B''
     = Some \<lparr>w_id = ''B'', w_location = ''Y'',
             inventory = [(''sku1'', \<lparr>quantity = 50, reserved = 20, version = 2,
                                      lastUpdated = 2\<rparr>)],
             lastSync = Some 2, status = ''active'', lag = 0\<rparr>"
    by (simp add: stockedWarehouses_def run_defs Let_def)
  note t = unknown_operation_bumps_version [OF h1 h2, of "readingsAt 3" "''sku1''" 7]
  have r: "snd (updateInventory (readingsAt 3) stockedWarehouses ''A'' ''sku1'' 7 (Some ''audit''))
     = Inr \<lparr>u_id = ''upd'', u_warehouseId = ''A'', u_productId = ''sku1'', u_quantity = 7,
            u_operation = ''audit'', u_timestamp = 3, u_version = 3\<rparr>"
    using t [THEN conjunct1] by (simp add: readingsAt_def)
  have a': "map_of (warehouses (fst (updateInventory (readingsAt 3) stockedWarehouses ''A'' ''sku1'' 7
                                  (Some ''audit'')))) ''A''
     = Some \<lparr>w_id = ''A'', w_location = ''X'',
             inventory = [(''sku1'', \<lparr>quantity = 50, reserved = 20, version = 3,
                                      lastUpdated = 3\<rparr>)],
             lastSync = None, status = ''active'', lag = 0\<rparr>"
    using t [THEN conjunct2, THEN conjunct2, THEN conjunct1] by (simp add: readingsAt_def)
  have b': "map_of (warehouses (fst (updateInventory (readingsAt 3) stockedWarehouses ''A'' ''sku1'' 7
                                  (Some ''audit'')))) ''B''
     = Some \<lparr>w_id = ''B'', w_location = ''Y'',
             inventory = [(''sku1'', \<lparr>quantity = 50, reserved = 20, version = 3,
                                      lastUpdated = 3\<rparr>)],
             lastSync = Some 3, status = ''active'', lag = 0\<rparr>"
    using t [THEN conjunct2, THEN conjunct2, THEN conjunct2, THEN conjunct1, rule_format,
        of "''B''", OF conjI [OF _ conjI [OF b]]]
    by (simp add: readingsAt_def)
  from h1 h2 b r a' b' show ?thesis by (intro conjI)
qed

end
